theory Spec2Isabelle
  imports Complex_Main
begin

section \<open>Numbers\<close>

text \<open>
  The tensors of \<^verbatim>\<open>smpl_torch.py\<close> hold 32-bit floats. The model computes with exact
  reals and has one more value, \<open>NaN\<close>, for every float that is not a finite number
  (NaN, \<open>+inf\<close>, \<open>-inf\<close>): addition, subtraction and multiplication give a non-finite
  result as soon as one operand is non-finite (also \<open>0 * NaN\<close>), and division by zero
  leaves the finite numbers. Rounding, overflow and the sign of zero are not modelled.
\<close>

datatype num = Fin real | NaN

instantiation num :: "{comm_monoid_add, comm_monoid_mult, minus, uminus}"
begin

definition zero_num :: num where "zero_num = Fin 0"

definition one_num :: num where "one_num = Fin 1"

fun plus_num :: "num \<Rightarrow> num \<Rightarrow> num" where
  "plus_num (Fin a) (Fin b) = Fin (a + b)"
| "plus_num _ _ = NaN"

fun times_num :: "num \<Rightarrow> num \<Rightarrow> num" where
  "times_num (Fin a) (Fin b) = Fin (a * b)"
| "times_num _ _ = NaN"

fun minus_num :: "num \<Rightarrow> num \<Rightarrow> num" where
  "minus_num (Fin a) (Fin b) = Fin (a - b)"
| "minus_num _ _ = NaN"

fun uminus_num :: "num \<Rightarrow> num" where
  "uminus_num (Fin a) = Fin (- a)"
| "uminus_num NaN = NaN"

instance
proof
  fix u v w :: num
  show "1 * u = u"
    by (cases u; simp add: one_num_def)
  show "0 + u = u"
    by (cases u; simp add: zero_num_def)
  show "u * v = v * u"
    by (cases u; cases v; simp)
  show "u + v = v + u"
    by (cases u; cases v; simp)
  show "u * v * w = u * (v * w)"
    by (cases u; cases v; cases w; simp)
  show "u + v + w = u + (v + w)"
    by (cases u; cases v; cases w; simp)
qed

end

fun ndiv :: "num \<Rightarrow> num \<Rightarrow> num" where
  "ndiv (Fin a) (Fin b) = (if b = 0 then NaN else Fin (a / b))"
| "ndiv _ _ = NaN"

fun nsqrt :: "num \<Rightarrow> num" where
  "nsqrt (Fin a) = Fin (sqrt a)"
| "nsqrt NaN = NaN"

fun ncos :: "num \<Rightarrow> num" where
  "ncos (Fin a) = Fin (cos a)"
| "ncos NaN = NaN"

fun nsin :: "num \<Rightarrow> num" where
  "nsin (Fin a) = Fin (sin a)"
| "nsin NaN = NaN"

section \<open>Tensors\<close>

text \<open>
  A tensor is its shape and its storage in row-major order, as a contiguous torch tensor
  is. Rank 1 is a list; ranks 2 and 3 carry their sizes, so that a dimension of size 0
  keeps the sizes of the others.
\<close>

datatype 'a tensor2 = Tensor2 (rows: nat) (cols: nat) (elems: "'a list")

datatype 'a tensor3 = Tensor3 (d0: nat) (d1: nat) (d2: nat) (elems3: "'a list")

definition at2 :: "'a tensor2 \<Rightarrow> nat \<Rightarrow> nat \<Rightarrow> 'a" where
  "at2 t i j = elems t ! (i * cols t + j)"

definition at3 :: "'a tensor3 \<Rightarrow> nat \<Rightarrow> nat \<Rightarrow> nat \<Rightarrow> 'a" where
  "at3 t i j k = elems3 t ! ((i * d1 t + j) * d2 t + k)"

definition mk2 :: "nat \<Rightarrow> nat \<Rightarrow> (nat \<Rightarrow> nat \<Rightarrow> 'a) \<Rightarrow> 'a tensor2" where
  "mk2 n m g = Tensor2 n m (map (\<lambda>p. g (p div m) (p mod m)) [0..<n * m])"

definition mk3 :: "nat \<Rightarrow> nat \<Rightarrow> nat \<Rightarrow> (nat \<Rightarrow> nat \<Rightarrow> nat \<Rightarrow> 'a) \<Rightarrow> 'a tensor3" where
  "mk3 n m k g =
     Tensor3 n m k (map (\<lambda>p. g (p div (m * k)) (p div k mod m) (p mod k)) [0..<n * m * k])"

text \<open>\<^verbatim>\<open>.type(torch.float32)\<close> on an array of numbers.\<close>

definition float2 :: "real tensor2 \<Rightarrow> num tensor2" where
  "float2 t = mk2 (rows t) (cols t) (\<lambda>i j. Fin (at2 t i j))"

definition float3 :: "real tensor3 \<Rightarrow> num tensor3" where
  "float3 t = mk3 (d0 t) (d1 t) (d2 t) (\<lambda>i j k. Fin (at3 t i j k))"

section \<open>Errors\<close>

text \<open>
  The Python exceptions the forward pass can raise: \<open>KeyError\<close> from a dictionary
  lookup, \<open>IndexError\<close> from indexing a list or a tensor out of range, and torch's
  \<open>RuntimeError\<close> for every shape mismatch.
\<close>

datatype error = KeyError | IndexError | RuntimeError

definition bnd :: "error + 'a \<Rightarrow> ('a \<Rightarrow> error + 'b) \<Rightarrow> error + 'b" where
  "bnd x g = (case x of Inl e \<Rightarrow> Inl e | Inr v \<Rightarrow> g v)"

section \<open>The torch operations used by the forward pass\<close>

text \<open>Broadcasting of one dimension: equal sizes, or one of them is 1.\<close>

definition bshape :: "nat \<Rightarrow> nat \<Rightarrow> nat option" where
  "bshape n m = (if n = m then Some n else if n = 1 then Some m
                 else if m = 1 then Some n else None)"

definition bix :: "nat \<Rightarrow> nat \<Rightarrow> nat" where
  "bix n i = (if n = 1 then 0 else i)"

text \<open>An elementwise binary operator on two rank-2 tensors, and on two rank-3 tensors.\<close>

definition bop2 :: "('a \<Rightarrow> 'a \<Rightarrow> 'a) \<Rightarrow> 'a tensor2 \<Rightarrow> 'a tensor2 \<Rightarrow> error + 'a tensor2" where
  "bop2 h a b =
     (case (bshape (rows a) (rows b), bshape (cols a) (cols b)) of
        (Some n, Some m) \<Rightarrow>
          Inr (mk2 n m (\<lambda>i j. h (at2 a (bix (rows a) i) (bix (cols a) j))
                                 (at2 b (bix (rows b) i) (bix (cols b) j))))
      | _ \<Rightarrow> Inl RuntimeError)"

definition bop3 :: "('a \<Rightarrow> 'a \<Rightarrow> 'a) \<Rightarrow> 'a tensor3 \<Rightarrow> 'a tensor3 \<Rightarrow> error + 'a tensor3" where
  "bop3 h a b =
     (case (bshape (d0 a) (d0 b), bshape (d1 a) (d1 b), bshape (d2 a) (d2 b)) of
        (Some n, Some m, Some k) \<Rightarrow>
          Inr (mk3 n m k (\<lambda>i j l. h (at3 a (bix (d0 a) i) (bix (d1 a) j) (bix (d2 a) l))
                                     (at3 b (bix (d0 b) i) (bix (d1 b) j) (bix (d2 b) l))))
      | _ \<Rightarrow> Inl RuntimeError)"

text \<open>
  \<^verbatim>\<open>torch.tensordot(a, b, dims=([2], [0]))\<close> for \<open>a\<close> of rank 3 and \<open>b\<close> of rank 1.
  torch first looks at the two contracted sizes: when one of them is 1 it sums the other
  tensor over its contracted dimension (broadcasting), and only otherwise requires the
  sizes to be equal.
\<close>

definition tensordot3x1 :: "num tensor3 \<Rightarrow> num list \<Rightarrow> error + num tensor2" where
  "tensordot3x1 a b =
     (let s1 = d2 a; s2 = length b in
      if s2 = 1 then Inr (mk2 (d0 a) (d1 a) (\<lambda>i j. (\<Sum>l<s1. at3 a i j l) * b ! 0))
      else if s1 = 1 then Inr (mk2 (d0 a) (d1 a) (\<lambda>i j. at3 a i j 0 * (\<Sum>l<s2. b ! l)))
      else if s1 = s2 then Inr (mk2 (d0 a) (d1 a) (\<lambda>i j. \<Sum>l<s1. at3 a i j l * b ! l))
      else Inl RuntimeError)"

text \<open>\<^verbatim>\<open>torch.tensordot(a, b, dims=([1], [0]))\<close> for \<open>a\<close> of rank 2 and \<open>b\<close> of rank 3.\<close>

definition tensordot2x3 :: "num tensor2 \<Rightarrow> num tensor3 \<Rightarrow> error + num tensor3" where
  "tensordot2x3 a b =
     (let s1 = cols a; s2 = d0 b in
      if s2 = 1
      then Inr (mk3 (rows a) (d1 b) (d2 b) (\<lambda>i x y. (\<Sum>l<s1. at2 a i l) * at3 b 0 x y))
      else if s1 = 1
      then Inr (mk3 (rows a) (d1 b) (d2 b) (\<lambda>i x y. at2 a i 0 * (\<Sum>l<s2. at3 b l x y)))
      else if s1 = s2
      then Inr (mk3 (rows a) (d1 b) (d2 b) (\<lambda>i x y. \<Sum>l<s1. at2 a i l * at3 b l x y))
      else Inl RuntimeError)"

text \<open>\<^verbatim>\<open>torch.matmul\<close> of two matrices, and of two batches of matrices (the batch
  dimension broadcasts, the inner sizes must agree).\<close>

definition matmul2 :: "num tensor2 \<Rightarrow> num tensor2 \<Rightarrow> error + num tensor2" where
  "matmul2 a b =
     (if cols a = rows b
      then Inr (mk2 (rows a) (cols b) (\<lambda>i j. \<Sum>l<cols a. at2 a i l * at2 b l j))
      else Inl RuntimeError)"

definition matmul3 :: "num tensor3 \<Rightarrow> num tensor3 \<Rightarrow> error + num tensor3" where
  "matmul3 a b =
     (case bshape (d0 a) (d0 b) of
        Some n \<Rightarrow>
          if d2 a = d1 b
          then Inr (mk3 n (d1 a) (d2 b)
                 (\<lambda>i x y. \<Sum>l<d2 a. at3 a (bix (d0 a) i) x l * at3 b (bix (d0 b) i) l y))
          else Inl RuntimeError
      | None \<Rightarrow> Inl RuntimeError)"

text \<open>\<^verbatim>\<open>torch.cat\<close> along dimension 1 and 0 of matrices and along dimension 2 of
  rank-3 tensors: every other dimension must agree.\<close>

definition cat2_dim1 :: "'a tensor2 \<Rightarrow> 'a tensor2 \<Rightarrow> error + 'a tensor2" where
  "cat2_dim1 a b =
     (if rows a = rows b
      then Inr (mk2 (rows a) (cols a + cols b)
                 (\<lambda>i j. if j < cols a then at2 a i j else at2 b i (j - cols a)))
      else Inl RuntimeError)"

definition cat2_dim0 :: "'a tensor2 \<Rightarrow> 'a tensor2 \<Rightarrow> error + 'a tensor2" where
  "cat2_dim0 a b =
     (if cols a = cols b
      then Inr (mk2 (rows a + rows b) (cols a)
                 (\<lambda>i j. if i < rows a then at2 a i j else at2 b (i - rows a) j))
      else Inl RuntimeError)"

definition cat3_dim2 :: "'a tensor3 \<Rightarrow> 'a tensor3 \<Rightarrow> error + 'a tensor3" where
  "cat3_dim2 a b =
     (if d0 a = d0 b \<and> d1 a = d1 b
      then Inr (mk3 (d0 a) (d1 a) (d2 a + d2 b)
                 (\<lambda>i j l. if l < d2 a then at3 a i j l else at3 b i j (l - d2 a)))
      else Inl RuntimeError)"

text \<open>\<^verbatim>\<open>torch.stack(ts, dim=0)\<close> of a list of matrices: the list is not empty and all
  its members have one shape.\<close>

definition stack :: "'a tensor2 list \<Rightarrow> error + 'a tensor3" where
  "stack ts =
     (case ts of
        [] \<Rightarrow> Inl RuntimeError
      | t # _ \<Rightarrow>
          if list_all (\<lambda>u. rows u = rows t \<and> cols u = cols t) ts
          then Inr (mk3 (length ts) (rows t) (cols t) (\<lambda>i x y. at2 (ts ! i) x y))
          else Inl RuntimeError)"

text \<open>Indexing: \<^verbatim>\<open>t[i]\<close> of a rank-3 tensor, \<^verbatim>\<open>t[i, :]\<close> of a matrix, \<^verbatim>\<open>xs[i]\<close> of a
  Python list, \<^verbatim>\<open>d[k]\<close> of a dictionary; the slices \<^verbatim>\<open>t[1:]\<close> and \<^verbatim>\<open>t[:, :3]\<close>.\<close>

definition index3 :: "'a tensor3 \<Rightarrow> nat \<Rightarrow> error + 'a tensor2" where
  "index3 t i = (if i < d0 t then Inr (mk2 (d1 t) (d2 t) (\<lambda>x y. at3 t i x y))
                 else Inl IndexError)"

definition row2 :: "'a tensor2 \<Rightarrow> nat \<Rightarrow> error + 'a list" where
  "row2 t i = (if i < rows t then Inr (map (\<lambda>j. at2 t i j) [0..<cols t])
               else Inl IndexError)"

definition list_index :: "'a list \<Rightarrow> nat \<Rightarrow> error + 'a" where
  "list_index xs i = (if i < length xs then Inr (xs ! i) else Inl IndexError)"

definition lookup :: "('k \<rightharpoonup> 'v) \<Rightarrow> 'k \<Rightarrow> error + 'v" where
  "lookup d k = (case d k of None \<Rightarrow> Inl KeyError | Some v \<Rightarrow> Inr v)"

definition slice_from1 :: "'a tensor3 \<Rightarrow> 'a tensor3" where
  "slice_from1 t = mk3 (d0 t - 1) (d1 t) (d2 t) (\<lambda>i x y. at3 t (i + 1) x y)"

definition slice_cols3 :: "'a tensor2 \<Rightarrow> 'a tensor2" where
  "slice_cols3 t = mk2 (rows t) (min 3 (cols t)) (\<lambda>i j. at2 t i j)"

text \<open>\<^verbatim>\<open>reshape\<close> and \<^verbatim>\<open>view\<close> keep the storage and change the shape; the number of
  elements must fit, and a size given as \<open>-1\<close> is computed from it.\<close>

definition reshape_3_1 :: "'a list \<Rightarrow> error + 'a tensor2" where
  "reshape_3_1 xs = (if length xs = 3 then Inr (Tensor2 3 1 xs) else Inl RuntimeError)"

definition reshape_1_3 :: "'a list \<Rightarrow> error + 'a tensor2" where
  "reshape_1_3 xs = (if length xs = 3 then Inr (Tensor2 1 3 xs) else Inl RuntimeError)"

definition reshape_24_4_1 :: "'a tensor2 \<Rightarrow> error + 'a tensor3" where
  "reshape_24_4_1 t = (if rows t * cols t = 96 then Inr (Tensor3 24 4 1 (elems t))
                       else Inl RuntimeError)"

definition reshape_m1_4_1 :: "'a tensor2 \<Rightarrow> error + 'a tensor3" where
  "reshape_m1_4_1 t =
     (if (rows t * cols t) mod 4 = 0 then Inr (Tensor3 (rows t * cols t div 4) 4 1 (elems t))
      else Inl RuntimeError)"

definition reshape_m1_4 :: "'a tensor3 \<Rightarrow> error + 'a tensor2" where
  "reshape_m1_4 t =
     (if (d0 t * d1 t * d2 t) mod 4 = 0
      then Inr (Tensor2 (d0 t * d1 t * d2 t div 4) 4 (elems3 t))
      else Inl RuntimeError)"

definition view_m1_1_3 :: "'a tensor2 \<Rightarrow> error + 'a tensor3" where
  "view_m1_1_3 t =
     (if (rows t * cols t) mod 3 = 0 then Inr (Tensor3 (rows t * cols t div 3) 1 3 (elems t))
      else Inl RuntimeError)"

section \<open>The model: \<^verbatim>\<open>class SMPL\<close>\<close>

text \<open>
  The unpickled parameter dictionary, and the module \<^verbatim>\<open>__init__\<close> builds from it: five
  float tensors, the kinematic table and the faces. The table is a \<open>2 \<times> K\<close> array; it
  is kept as its \<open>K\<close> columns, column \<open>i\<close> being
  \<open>(kintree_table[0, i], kintree_table[1, i])\<close>, the identifier of the parent of
  joint \<open>i\<close> and the identifier of joint \<open>i\<close>.
\<close>

record params =
  p_J_regressor :: "real tensor2"
  p_weights :: "real tensor2"
  p_posedirs :: "real tensor3"
  p_v_template :: "real tensor2"
  p_shapedirs :: "real tensor3"
  p_kintree_table :: "(nat \<times> nat) list"
  p_f :: "nat list list"

record smpl =
  J_regressor :: "num tensor2"
  weights :: "num tensor2"
  posedirs :: "num tensor3"
  v_template :: "num tensor2"
  shapedirs :: "num tensor3"
  kintree_table :: "(nat \<times> nat) list"
  faces :: "nat list list"

definition SMPL_init :: "params \<Rightarrow> smpl" where
  "SMPL_init p =
     \<lparr> J_regressor = float2 (p_J_regressor p),
       weights = float2 (p_weights p),
       posedirs = float3 (p_posedirs p),
       v_template = float2 (p_v_template p),
       shapedirs = float3 (p_shapedirs p),
       kintree_table = p_kintree_table p,
       faces = p_f p \<rparr>"

subsection \<open>\<^verbatim>\<open>_rodrigues\<close>\<close>

text \<open>
  \<^verbatim>\<open>eps = r.clone().normal_(std=1e-8)\<close> draws one random number for every entry of
  \<open>r\<close>. The draw is the argument \<open>noise\<close>: \<open>noise i k l\<close> is the number drawn for
  \<open>r[i, k, l]\<close>. The angle is the norm of \<open>r + eps\<close>, the axis is \<open>r\<close> divided by it.
\<close>

definition rodrigues :: "num tensor3 \<Rightarrow> (nat \<Rightarrow> nat \<Rightarrow> nat \<Rightarrow> real) \<Rightarrow> error + num tensor3" where
  "rodrigues r noise =
     (let eps = (\<lambda>i k l. Fin (noise i k l));
          theta = (\<lambda>i. nsqrt (\<Sum>k<d1 r. \<Sum>l<d2 r.
                           (at3 r i k l + eps i k l) * (at3 r i k l + eps i k l)));
          r_hat = (\<lambda>i k l. ndiv (at3 r i k l) (theta i));
          cs = (\<lambda>i. ncos (theta i));
          m = (\<lambda>i x y. [[0, - r_hat i 0 2, r_hat i 0 1],
                         [r_hat i 0 2, 0, - r_hat i 0 0],
                         [- r_hat i 0 1, r_hat i 0 0, 0]] ! x ! y);
          i_cube = (\<lambda>x y. if x = y then 1 else 0);
          dot = (\<lambda>i x y. \<Sum>k<d1 r. r_hat i k x * r_hat i k y)
      in if d1 r = 0 \<or> d2 r < 3 then Inl IndexError
         else if 3 < d2 r then Inl RuntimeError
         else Inr (mk3 (d0 r) 3 3
                (\<lambda>i x y. cs i * i_cube x y + (1 - cs i) * dot i x y + nsin (theta i) * m i x y)))"

subsection \<open>\<^verbatim>\<open>_with_zeros\<close> and \<^verbatim>\<open>_pack\<close>\<close>

definition with_zeros :: "num tensor2 \<Rightarrow> error + num tensor2" where
  "with_zeros x = cat2_dim0 x (Tensor2 1 4 [0, 0, 0, 1])"

definition pack :: "num tensor3 \<Rightarrow> error + num tensor3" where
  "pack x = cat3_dim2 (mk3 (d0 x) 4 3 (\<lambda>i j l. 0)) x"

subsection \<open>\<^verbatim>\<open>forward\<close>\<close>

text \<open>Lines 130 and 131: the two dictionaries. A later column with the same identifier
  replaces an earlier one; a parent identifier that no column carries raises
  \<open>KeyError\<close>.\<close>

definition id_to_col :: "(nat \<times> nat) list \<Rightarrow> (nat \<rightharpoonup> nat)" where
  "id_to_col kt = fold (\<lambda>i d. d(snd (kt ! i) \<mapsto> i)) [0..<length kt] Map.empty"

fun parent_loop ::
  "(nat \<times> nat) list \<Rightarrow> (nat \<rightharpoonup> nat) \<Rightarrow> nat list \<Rightarrow> (nat \<rightharpoonup> nat) \<Rightarrow> error + (nat \<rightharpoonup> nat)" where
  "parent_loop kt ids [] d = Inr d"
| "parent_loop kt ids (i # js) d =
     bnd (lookup ids (fst (kt ! i))) (\<lambda>c. parent_loop kt ids js (d(i \<mapsto> c)))"

definition parent_dict :: "(nat \<times> nat) list \<Rightarrow> error + (nat \<rightharpoonup> nat)" where
  "parent_dict kt = parent_loop kt (id_to_col kt) [1..<length kt] Map.empty"

text \<open>Line 132: the shaped vertices.\<close>

definition v_shaped :: "smpl \<Rightarrow> num list \<Rightarrow> error + num tensor2" where
  "v_shaped self beta =
     bnd (tensordot3x1 (shapedirs self) beta) (\<lambda>sb. bop2 (+) sb (v_template self))"

text \<open>Lines 136 to 145: the posed vertices. \<^verbatim>\<open>reshape(..., (-1, 1)).squeeze()\<close> is the
  storage as a vector, unless it has exactly one element: then \<open>squeeze\<close> leaves a
  tensor without dimensions, which \<open>tensordot\<close> cannot index.\<close>

definition v_posed :: "smpl \<Rightarrow> num tensor3 \<Rightarrow> num tensor2 \<Rightarrow> bool \<Rightarrow> error + num tensor2" where
  "v_posed self R_cube_big vs simplify =
     (if simplify then Inr vs
      else
        let R_cube = slice_from1 R_cube_big;
            I_cube = mk3 (d0 R_cube) 3 3 (\<lambda>i x y. if x = y then 1 else 0)
        in bnd (bop3 (-) R_cube I_cube) (\<lambda>dev.
           bnd (if length (elems3 dev) = 1 then Inl IndexError else Inr (elems3 dev)) (\<lambda>lrotmin.
           bnd (tensordot3x1 (posedirs self) lrotmin) (\<lambda>pd.
           bop2 (+) vs pd))))"

text \<open>Lines 148 to 163: the chain of joint transforms. \<open>joint_matrix\<close> is
  \<^verbatim>\<open>_with_zeros(cat((R, reshape(t, (3, 1))), dim=1))\<close>.\<close>

definition joint_matrix :: "num tensor2 \<Rightarrow> num list \<Rightarrow> error + num tensor2" where
  "joint_matrix R t = bnd (reshape_3_1 t) (\<lambda>t31. bnd (cat2_dim1 R t31) with_zeros)"

definition root_transform :: "num tensor3 \<Rightarrow> num tensor2 \<Rightarrow> error + num tensor2" where
  "root_transform R_cube_big J =
     bnd (index3 R_cube_big 0) (\<lambda>R0. bnd (row2 J 0) (\<lambda>J0. joint_matrix R0 J0))"

fun chain ::
  "(nat \<rightharpoonup> nat) \<Rightarrow> num tensor3 \<Rightarrow> num tensor2 \<Rightarrow> nat list \<Rightarrow> num tensor2 list
     \<Rightarrow> error + num tensor2 list" where
  "chain parent R_cube_big J [] results = Inr results"
| "chain parent R_cube_big J (i # js) results =
     bnd (lookup parent i) (\<lambda>p.
     bnd (list_index results p) (\<lambda>Gp.
     bnd (index3 R_cube_big i) (\<lambda>Ri.
     bnd (row2 J i) (\<lambda>Ji.
     bnd (row2 J p) (\<lambda>Jp.
     bnd (joint_matrix Ri (map2 (-) Ji Jp)) (\<lambda>L.
     bnd (matmul2 Gp L) (\<lambda>G.
     chain parent R_cube_big J js (results @ [G]))))))))"

text \<open>Lines 165 to 177: the transforms relative to the rest pose, with the joint count
  24 written into the padding and the reshape.\<close>

definition relative_transforms :: "num tensor2 list \<Rightarrow> num tensor2 \<Rightarrow> error + num tensor3" where
  "relative_transforms results J =
     bnd (stack results) (\<lambda>stacked.
     bnd (cat2_dim1 J (mk2 24 1 (\<lambda>i j. 0))) (\<lambda>J0.
     bnd (reshape_24_4_1 J0) (\<lambda>Jh.
     bnd (matmul3 stacked Jh) (\<lambda>x.
     bnd (pack x) (\<lambda>px.
     bop3 (-) stacked px)))))"

text \<open>Lines 178 to 188: linear blend skinning and the translation.\<close>

definition skinning ::
  "num tensor2 \<Rightarrow> num tensor3 \<Rightarrow> num tensor2 \<Rightarrow> num list \<Rightarrow> error + num tensor2" where
  "skinning w rel vp trns =
     bnd (tensordot2x3 w rel) (\<lambda>T.
     bnd (cat2_dim1 vp (mk2 (rows vp) 1 (\<lambda>i j. 1))) (\<lambda>rest_shape_h.
     bnd (reshape_m1_4_1 rest_shape_h) (\<lambda>h.
     bnd (matmul3 T h) (\<lambda>v.
     bnd (reshape_m1_4 v) (\<lambda>v4.
     bnd (reshape_1_3 trns) (\<lambda>t.
     bop2 (+) (slice_cols3 v4) t))))))"

definition forward ::
  "smpl \<Rightarrow> num list \<Rightarrow> num tensor2 \<Rightarrow> num list \<Rightarrow> bool \<Rightarrow> (nat \<Rightarrow> nat \<Rightarrow> nat \<Rightarrow> real)
     \<Rightarrow> error + (num tensor2 \<times> nat list list)" where
  "forward self beta pose trns simplify noise =
     bnd (parent_dict (kintree_table self)) (\<lambda>parent.
     bnd (v_shaped self beta) (\<lambda>vs.
     bnd (matmul2 (J_regressor self) vs) (\<lambda>J.
     bnd (view_m1_1_3 pose) (\<lambda>r.
     bnd (rodrigues r noise) (\<lambda>R_cube_big.
     bnd (v_posed self R_cube_big vs simplify) (\<lambda>vp.
     bnd (root_transform R_cube_big J) (\<lambda>G0.
     bnd (chain parent R_cube_big J [1..<length (kintree_table self)] [G0]) (\<lambda>results.
     bnd (relative_transforms results J) (\<lambda>rel.
     bnd (skinning (weights self) rel vp trns) (\<lambda>vertices.
     Inr (vertices, faces self)))))))))))"

section \<open>Notation of the specification\<close>

text \<open>
  \<open>homog R t\<close> is \<open>[R | t]\<close>, the \<open>4 \<times> 4\<close> matrix with rotation block \<open>R\<close>,
  translation column \<open>t\<close> and bottom row \<open>(0, 0, 0, 1)\<close>; \<open>rest4 J j\<close> is
  \<open>[J[j]; 0]\<close>, the rest position of joint \<open>j\<close> with a 0 appended; \<open>packed x\<close> is
  \<open>pack x\<close>, the column \<open>x\<close> behind three columns of zeros; \<open>homogeneous vp v\<close> is
  vertex \<open>v\<close> with a 1 appended.
\<close>

definition homog :: "(nat \<Rightarrow> nat \<Rightarrow> num) \<Rightarrow> (nat \<Rightarrow> num) \<Rightarrow> nat \<Rightarrow> nat \<Rightarrow> num" where
  "homog R t a b = (if a < 3 then (if b < 3 then R a b else t a) else (if b < 3 then 0 else 1))"

definition rest4 :: "num tensor2 \<Rightarrow> nat \<Rightarrow> nat \<Rightarrow> num" where
  "rest4 J j l = (if l < 3 then at2 J j l else 0)"

definition packed :: "(nat \<Rightarrow> num) \<Rightarrow> nat \<Rightarrow> nat \<Rightarrow> num" where
  "packed x a b = (if b < 3 then 0 else x a)"

definition homogeneous :: "num tensor2 \<Rightarrow> nat \<Rightarrow> nat \<Rightarrow> num" where
  "homogeneous vp v l = (if l < 3 then at2 vp v l else 1)"

section \<open>The values of the stages\<close>

text \<open>
  At inputs of the sizes it expects, each stage of \<open>forward\<close> returns a tensor that
  can be written down entry by entry. \<open>rod_entry v e\<close> is the matrix \<open>_rodrigues\<close>
  computes for one axis-angle vector \<open>v\<close> and the three numbers \<open>e\<close> drawn for it,
  and \<open>rot_of pose noise\<close> the batch of them for a pose of three columns.
  \<open>shaped_of\<close> is line 132, \<open>joints_of\<close> line 133, \<open>root_of\<close> line 148,
  \<open>fk_step\<close> one round of the loop of lines 149 to 163, \<open>rel_entry\<close> an entry of
  the result of lines 165 to 177, \<open>skin_entry\<close> an entry of the result of lines 178
  to 188, and \<open>skin_pre\<close> lines 178 to 187, before the translation is added. The
  lemmas below prove that the stages return these values.
\<close>

definition rod_entry :: "(nat \<Rightarrow> num) \<Rightarrow> (nat \<Rightarrow> real) \<Rightarrow> nat \<Rightarrow> nat \<Rightarrow> num" where
  "rod_entry v e x y =
     (let theta = nsqrt (\<Sum>l<3. (v l + Fin (e l)) * (v l + Fin (e l)));
          r_hat = (\<lambda>l. ndiv (v l) theta)
      in ncos theta * (if x = y then 1 else 0) + (1 - ncos theta) * (r_hat x * r_hat y)
         + nsin theta * ([[0, - r_hat 2, r_hat 1], [r_hat 2, 0, - r_hat 0], [- r_hat 1, r_hat 0, 0]] ! x ! y))"

definition rot_of :: "num tensor2 \<Rightarrow> (nat \<Rightarrow> nat \<Rightarrow> nat \<Rightarrow> real) \<Rightarrow> num tensor3" where
  "rot_of pose noise = mk3 (rows pose) 3 3 (\<lambda>i. rod_entry (at2 pose i) (noise i 0))"

definition shaped_of :: "smpl \<Rightarrow> num list \<Rightarrow> num tensor2" where
  "shaped_of self beta =
     mk2 (d0 (shapedirs self)) 3
       (\<lambda>v c. (\<Sum>s<length beta. at3 (shapedirs self) v c s * beta ! s) + at2 (v_template self) v c)"

definition joints_of :: "smpl \<Rightarrow> num list \<Rightarrow> num tensor2" where
  "joints_of self beta =
     mk2 (rows (J_regressor self)) 3
       (\<lambda>i j. \<Sum>l<cols (J_regressor self). at2 (J_regressor self) i l * at2 (shaped_of self beta) l j)"

definition root_of :: "smpl \<Rightarrow> num list \<Rightarrow> num tensor2 \<Rightarrow> (nat \<Rightarrow> nat \<Rightarrow> nat \<Rightarrow> real) \<Rightarrow> num tensor2" where
  "root_of self beta pose noise =
     mk2 4 4 (homog (at3 (rot_of pose noise) 0) (at2 (joints_of self beta) 0))"

definition fk_step :: "num tensor3 \<Rightarrow> num tensor2 \<Rightarrow> num tensor2 \<Rightarrow> nat \<Rightarrow> nat \<Rightarrow> num tensor2" where
  "fk_step R J Gp j p =
     mk2 4 4 (\<lambda>x y. \<Sum>l<4. at2 Gp x l * homog (at3 R j) (\<lambda>c. at2 J j c - at2 J p c) l y)"

definition rel_entry :: "num tensor2 list \<Rightarrow> num tensor2 \<Rightarrow> nat \<Rightarrow> nat \<Rightarrow> nat \<Rightarrow> num" where
  "rel_entry G J j a b =
     at2 (G ! j) a b -
     (if b < 3 then 0 else \<Sum>l<4. at2 (G ! j) a l * (if l < 3 then at2 J j l else 0))"

definition skin_entry ::
  "num tensor2 \<Rightarrow> num tensor3 \<Rightarrow> num tensor2 \<Rightarrow> num list \<Rightarrow> nat \<Rightarrow> nat \<Rightarrow> num" where
  "skin_entry w rel vp t v c =
     (\<Sum>l<4. (\<Sum>j<d0 rel. at2 w v j * at3 rel j c l) * (if l < 3 then at2 vp v l else 1)) + t ! c"

definition skin_pre :: "num tensor2 \<Rightarrow> num tensor3 \<Rightarrow> num tensor2 \<Rightarrow> error + num tensor2" where
  "skin_pre w rel vp =
     bnd (tensordot2x3 w rel) (\<lambda>T.
     bnd (cat2_dim1 vp (mk2 (rows vp) 1 (\<lambda>i j. 1))) (\<lambda>rest_shape_h.
     bnd (reshape_m1_4_1 rest_shape_h) (\<lambda>h.
     bnd (matmul3 T h) (\<lambda>v. reshape_m1_4 v))))"

section \<open>Sizes, order and finite entries\<close>

text \<open>
  \<open>shapes_ok\<close>: the arrays of the module and the inputs have mutually consistent
  sizes, for \<open>V\<close> vertices and \<open>K\<close> joints (the pose basis is only read without
  \<open>simplify\<close>). \<open>topological\<close>: every joint after the root has a parent, and the
  parent's column comes before its own. \<open>all44\<close>: a list of \<open>4 \<times> 4\<close> matrices.
  \<open>fin2\<close> and \<open>fin3\<close>: no entry is \<open>NaN\<close>.
\<close>

definition shapes_ok :: "smpl \<Rightarrow> num list \<Rightarrow> num tensor2 \<Rightarrow> bool \<Rightarrow> nat \<Rightarrow> nat \<Rightarrow> bool" where
  "shapes_ok self beta pose simplify V K \<longleftrightarrow>
     d0 (shapedirs self) = V \<and> d1 (shapedirs self) = 3 \<and> d2 (shapedirs self) = length beta \<and>
     rows (v_template self) = V \<and> cols (v_template self) = 3 \<and>
     rows (J_regressor self) = K \<and> cols (J_regressor self) = V \<and>
     rows (weights self) = V \<and> cols (weights self) = K \<and>
     length (kintree_table self) = K \<and> 0 < K \<and>
     rows pose = K \<and> cols pose = 3 \<and>
     (simplify \<or> (d0 (posedirs self) = V \<and> d1 (posedirs self) = 3 \<and> d2 (posedirs self) = 9 * (K - 1)))"

definition topological :: "(nat \<times> nat) list \<Rightarrow> bool" where
  "topological kt =
     list_all (\<lambda>j. case id_to_col kt (fst (kt ! j)) of None \<Rightarrow> False | Some p \<Rightarrow> p < j)
       [1..<length kt]"

definition all44 :: "num tensor2 list \<Rightarrow> bool" where
  "all44 G = list_all (\<lambda>H. rows H = 4 \<and> cols H = 4) G"

definition fin2 :: "num tensor2 \<Rightarrow> bool" where
  "fin2 t = (\<forall>i<rows t. \<forall>j<cols t. at2 t i j \<noteq> NaN)"

definition fin3 :: "num tensor3 \<Rightarrow> bool" where
  "fin3 t = (\<forall>i<d0 t. \<forall>j<d1 t. \<forall>l<d2 t. at3 t i j l \<noteq> NaN)"

section \<open>Concrete inputs\<close>

text \<open>
  The example parameters have two vertices, two shape components and the 24 joints of
  the SMPL body with its kinematic table (the root's parent identifier is
  \<open>2\<^sup>3\<^sup>2 - 1\<close>); vertex 0 hangs on joint 0, vertex 1 has no weight at all.
  Variants: one shape component; 23 joints; joints 1 and 2 exchanged in the order
  (joint 1 hangs on joint 2); a parent identifier that no joint carries.
\<close>

definition zero2 :: "nat \<Rightarrow> nat \<Rightarrow> real" where
  "zero2 i j = 0"

definition zero3 :: "nat \<Rightarrow> nat \<Rightarrow> nat \<Rightarrow> real" where
  "zero3 i j k = 0"

definition ex_weight :: "nat \<Rightarrow> nat \<Rightarrow> real" where
  "ex_weight v j = (if v = 0 \<and> j = 0 then 1 else 0)"

definition smpl_kintree :: "(nat \<times> nat) list" where
  "smpl_kintree =
     zip [4294967295, 0, 0, 0, 1, 2, 3, 4, 5, 6, 7, 8, 9, 9, 9, 12, 13, 14, 16, 17, 18, 19, 20, 21]
         [0..<24]"

definition ex_params :: params where
  "ex_params =
     \<lparr> p_J_regressor = mk2 24 2 zero2,
       p_weights = mk2 2 24 ex_weight,
       p_posedirs = mk3 2 3 207 zero3,
       p_v_template = Tensor2 2 3 [1, 0, 0, 0, 1, 0],
       p_shapedirs = Tensor3 2 3 2 [1, 0, 0, 1, 0, 0, 0, 0, 1, 1, 2, 0],
       p_kintree_table = smpl_kintree,
       p_f = [[0, 1, 1]] \<rparr>"

definition ex_params_s1 :: params where
  "ex_params_s1 = ex_params\<lparr> p_shapedirs := Tensor3 2 3 1 [1, 0, 0, 0, 1, 0] \<rparr>"

definition ex_params23 :: params where
  "ex_params23 =
     ex_params\<lparr> p_J_regressor := mk2 23 2 zero2,
                p_weights := mk2 2 23 ex_weight,
                p_posedirs := mk3 2 3 198 zero3,
                p_kintree_table := take 23 smpl_kintree \<rparr>"

definition shuffled_kintree :: "(nat \<times> nat) list" where
  "shuffled_kintree =
     zip [4294967295, 2, 0, 0, 1, 2, 3, 4, 5, 6, 7, 8, 9, 9, 9, 12, 13, 14, 16, 17, 18, 19, 20, 21]
         [0..<24]"

definition ex_params_shuffled :: params where
  "ex_params_shuffled = ex_params\<lparr> p_kintree_table := shuffled_kintree \<rparr>"

definition orphan_kintree :: "(nat \<times> nat) list" where
  "orphan_kintree =
     zip [4294967295, 0, 0, 0, 1, 99, 3, 4, 5, 6, 7, 8, 9, 9, 9, 12, 13, 14, 16, 17, 18, 19, 20, 21]
         [0..<24]"

definition ex_params_orphan :: params where
  "ex_params_orphan = ex_params\<lparr> p_kintree_table := orphan_kintree \<rparr>"

text \<open>
  Inputs: zero shape, zero pose, zero translation; one zero axis-angle vector; a draw
  that is zero everywhere, a draw of \<open>1e-8\<close> in the first component of every
  vector, and a draw that agrees with it on the 24 vectors of the pose only; a chain as
  kinematic tree; 24 rotations, joint positions and transforms.
\<close>

definition ex_beta :: "num list" where
  "ex_beta = [0, 0]"

definition ex_pose :: "num tensor2" where
  "ex_pose = float2 (mk2 24 3 zero2)"

definition ex_pose23 :: "num tensor2" where
  "ex_pose23 = float2 (mk2 23 3 zero2)"

definition ex_trans :: "num list" where
  "ex_trans = [0, 0, 0]"

definition zero_r :: "num tensor3" where
  "zero_r = Tensor3 1 1 3 [0, 0, 0]"

definition no_noise :: "nat \<Rightarrow> nat \<Rightarrow> nat \<Rightarrow> real" where
  "no_noise i k l = 0"

definition tiny_noise :: "nat \<Rightarrow> nat \<Rightarrow> nat \<Rightarrow> real" where
  "tiny_noise i k l = (if l = 0 then 1 / 10 ^ 8 else 0)"

definition far_noise :: "nat \<Rightarrow> nat \<Rightarrow> nat \<Rightarrow> real" where
  "far_noise i k l = (if i < 24 then tiny_noise i k l else 1)"

definition chain_par :: "nat \<rightharpoonup> nat" where
  "chain_par j = Some (j - 1)"

definition ex_R :: "num tensor3" where
  "ex_R = rot_of ex_pose tiny_noise"

definition ex_J :: "num tensor2" where
  "ex_J = float2 (mk2 24 3 zero2)"

definition ex_T :: "num tensor3" where
  "ex_T = float3 (mk3 24 4 4 zero3)"

section \<open>Lemmas\<close>

subsection \<open>Error propagation, tensors, numbers\<close>

lemma bnd_Inl [simp]: "bnd (Inl e) g = Inl e" by (simp add: bnd_def)

lemma bnd_Inr [simp]: "bnd (Inr v) g = g v" by (simp add: bnd_def)

lemma rows_mk2 [simp]: "rows (mk2 n m g) = n" by (simp add: mk2_def)

lemma cols_mk2 [simp]: "cols (mk2 n m g) = m" by (simp add: mk2_def)

lemma d0_mk3 [simp]: "d0 (mk3 n m k g) = n" by (simp add: mk3_def)

lemma d1_mk3 [simp]: "d1 (mk3 n m k g) = m" by (simp add: mk3_def)

lemma d2_mk3 [simp]: "d2 (mk3 n m k g) = k" by (simp add: mk3_def)

lemma idx2_less: "i < n \<Longrightarrow> j < m \<Longrightarrow> i * m + j < n * (m::nat)"
proof -
  assume a: "i < n" "j < m"
  then have "i * m + j < i * m + m" by simp
  also have "\<dots> = Suc i * m" by simp
  also from a have "\<dots> \<le> n * m" by (intro mult_le_mono1) simp
  finally show ?thesis .
qed

lemma at2_mk2 [simp]: "i < n \<Longrightarrow> j < m \<Longrightarrow> at2 (mk2 n m g) i j = g i j"
  by (simp add: at2_def mk2_def idx2_less)

lemma at3_mk3 [simp]:
  assumes "i < n" "j < m" "l < k"
  shows "at3 (mk3 n m k g) i j l = g i j l"
proof -
  have 1: "i * m + j < n * m" using assms by (simp add: idx2_less)
  have 2: "(i * m + j) * k + l < n * m * k" using 1 assms(3) by (rule idx2_less)
  have 3: "((i * m + j) * k + l) div k = i * m + j" using assms(3) by simp
  have "((i * m + j) * k + l) div (k * m) = (((i * m + j) * k + l) div k) div m"
    by (rule div_mult2_eq)
  also have "\<dots> = i" using assms(2) by (simp only: 3) simp
  finally have 4: "((i * m + j) * k + l) div (m * k) = i" by (simp add: mult.commute)
  show ?thesis
    using assms 2 3 4 by (simp add: at3_def mk3_def)
qed

lemma mk2_cong: "(\<And>i j. i < n \<Longrightarrow> j < m \<Longrightarrow> g i j = h i j) \<Longrightarrow> mk2 n m g = mk2 n m h"
proof -
  assume a: "\<And>i j. i < n \<Longrightarrow> j < m \<Longrightarrow> g i j = h i j"
  have "g (p div m) (p mod m) = h (p div m) (p mod m)" if "p < n * m" for p
  proof -
    from that have "0 < m" by (cases m) simp_all
    moreover from that have "p div m < n" by (simp add: less_mult_imp_div_less)
    ultimately show ?thesis by (intro a) simp_all
  qed
  then show ?thesis by (simp add: mk2_def)
qed

lemma mk3_cong:
  "(\<And>i j l. i < n \<Longrightarrow> j < m \<Longrightarrow> l < k \<Longrightarrow> g i j l = h i j l) \<Longrightarrow> mk3 n m k g = mk3 n m k h"
proof -
  assume a: "\<And>i j l. i < n \<Longrightarrow> j < m \<Longrightarrow> l < k \<Longrightarrow> g i j l = h i j l"
  have "g (p div (m * k)) (p div k mod m) (p mod k) = h (p div (m * k)) (p div k mod m) (p mod k)"
    if "p < n * m * k" for p
  proof -
    from that have "0 < k" by (cases k) simp_all
    moreover from that have "0 < m" by (cases m) simp_all
    moreover from that have "p div (m * k) < n"
      by (simp add: less_mult_imp_div_less mult.assoc)
    ultimately show ?thesis by (intro a) simp_all
  qed
  then show ?thesis by (simp add: mk3_def)
qed

lemma sum_Fin: "(\<Sum>i\<in>A. Fin (g i)) = Fin (\<Sum>i\<in>A. g i)"
  by (induction A rule: infinite_finite_induct) (simp_all add: zero_num_def)

lemma Fin_zero_mult [simp]: "0 * Fin a = 0" "Fin a * 0 = 0"
  by (simp_all add: zero_num_def)

lemma bix_id [simp]: "i < n \<Longrightarrow> bix n i = i"
  by (auto simp: bix_def)

lemma bshape_same [simp]: "bshape n n = Some n"
  by (simp add: bshape_def)

lemma bshape_one [simp]: "bshape n (Suc 0) = Some n"
  by (simp add: bshape_def)

lemma at2_float2 [simp]: "i < rows t \<Longrightarrow> j < cols t \<Longrightarrow> at2 (float2 t) i j = Fin (at2 t i j)"
  by (simp add: float2_def)

lemma at3_float3 [simp]:
  "i < d0 t \<Longrightarrow> j < d1 t \<Longrightarrow> l < d2 t \<Longrightarrow> at3 (float3 t) i j l = Fin (at3 t i j l)"
  by (simp add: float3_def)

lemma dims_float [simp]:
  "rows (float2 t) = rows t" "cols (float2 t) = cols t"
  "d0 (float3 u) = d0 u" "d1 (float3 u) = d1 u" "d2 (float3 u) = d2 u"
  by (simp_all add: float2_def float3_def)

lemma bop2_same:
  "rows a = n \<Longrightarrow> cols a = m \<Longrightarrow> rows b = n \<Longrightarrow> cols b = m \<Longrightarrow>
   bop2 h a b = Inr (mk2 n m (\<lambda>i j. h (at2 a i j) (at2 b i j)))"
  by (auto simp: bop2_def intro!: mk2_cong)

lemma tensordot3x1_same:
  assumes "d2 a = length b"
  shows "tensordot3x1 a b = Inr (mk2 (d0 a) (d1 a) (\<lambda>i j. \<Sum>l<length b. at3 a i j l * b ! l))"
  using assms by (auto simp: tensordot3x1_def Let_def intro!: mk2_cong)

lemma v_shaped_value:
  assumes "d0 (shapedirs self) = V" "d1 (shapedirs self) = D" "d2 (shapedirs self) = length beta"
    and "rows (v_template self) = V" "cols (v_template self) = D"
  shows "v_shaped self beta =
     Inr (mk2 V D (\<lambda>v c. (\<Sum>s<length beta. at3 (shapedirs self) v c s * beta ! s)
                          + at2 (v_template self) v c))"
  using assms by (simp add: v_shaped_def tensordot3x1_same bop2_same cong: mk2_cong)

lemma bop2_row:
  "cols a = 3 \<Longrightarrow>
   bop2 (+) a (Tensor2 (Suc 0) 3 t) = Inr (mk2 (rows a) 3 (\<lambda>i j. at2 a i j + t ! j))"
  by (auto simp: bop2_def at2_def bix_def bshape_def intro!: mk2_cong)

lemma reshape_m1_4_cols: "reshape_m1_4 v = Inr v4 \<Longrightarrow> cols v4 = 4"
  by (auto simp: reshape_m1_4_def split: if_splits)

lemma add_zero_num [simp]: "a + Fin 0 = a" "Fin 0 + a = a"
  using add_0_right[of a] add_0_left[of a] by (simp_all add: zero_num_def)

lemma skinning_split:
  "length t = 3 \<Longrightarrow> skinning w rel vp t =
     bnd (skin_pre w rel vp) (\<lambda>v4. Inr (mk2 (rows v4) 3 (\<lambda>i j. at2 (slice_cols3 v4) i j + t ! j)))"
  apply (simp add: skinning_def skin_pre_def reshape_1_3_def)
  apply (auto simp: bnd_def bop2_row slice_cols3_def dest!: reshape_m1_4_cols split: sum.splits)
  done

lemma one_minus_cos_bound: "\<bar>cos (x::real) - 1\<bar> \<le> x\<^sup>2 / 2"
proof -
  have c: "cos x = 1 - 2 * (sin (x / 2))\<^sup>2"
    using cos_double_sin[of "x / 2"] by simp
  have "\<bar>sin (x / 2)\<bar> \<le> \<bar>x / 2\<bar>" by (rule abs_sin_x_le_abs_x)
  then have "(sin (x / 2))\<^sup>2 \<le> (x / 2)\<^sup>2"
    by (metis abs_le_square_iff)
  then have "2 * (sin (x / 2))\<^sup>2 \<le> x\<^sup>2 / 2"
    by (simp add: power2_eq_square)
  with c show ?thesis by simp
qed

lemma sum3: "(\<Sum>l<(3::nat). g l) = g 0 + g 1 + (g 2 :: 'a::comm_monoid_add)"
  by (simp add: eval_nat_numeral)

lemma num_consts: "(0::num) = Fin 0" "(1::num) = Fin 1"
  by (simp_all add: zero_num_def one_num_def)

lemma NaN_absorb [simp]: "NaN + a = NaN" "a + NaN = NaN" "NaN * a = NaN" "a * NaN = NaN"
  "NaN - a = NaN" "a - NaN = NaN"
  by (cases a; simp)+

lemma cos_sqrt_bound:
  "2 - cos (sqrt (a * a + b * b + c * c)) * 2 \<le> a * a + b * b + (c * c :: real)"
proof -
  have "0 \<le> a * a + b * b + c * c" by simp
  then have "(sqrt (a * a + b * b + c * c))\<^sup>2 = a * a + b * b + c * c" by simp
  with one_minus_cos_bound[of "sqrt (a * a + b * b + c * c)"] show ?thesis by simp
qed

lemma sm_init_simps [simp]:
  "J_regressor (SMPL_init p) = float2 (p_J_regressor p)"
  "weights (SMPL_init p) = float2 (p_weights p)"
  "posedirs (SMPL_init p) = float3 (p_posedirs p)"
  "v_template (SMPL_init p) = float2 (p_v_template p)"
  "shapedirs (SMPL_init p) = float3 (p_shapedirs p)"
  "kintree_table (SMPL_init p) = p_kintree_table p"
  "faces (SMPL_init p) = p_f p"
  by (simp_all add: SMPL_init_def)

lemma rodrigues_cong:
  assumes "\<forall>i<d0 r. \<forall>k<d1 r. \<forall>l<d2 r. noise i k l = noise' i k l"
  shows "rodrigues r noise = rodrigues r noise'"
  using assms by (auto simp: rodrigues_def Let_def intro!: mk3_cong sum.cong arg_cong[of _ _ nsqrt])

lemma sum2: "(\<Sum>l<(2::nat). g l) = g 0 + (g 1 :: 'a::comm_monoid_add)"
  by (simp add: eval_nat_numeral)

lemma ex_shapedirs [simp]: "p_shapedirs ex_params = Tensor3 2 3 2 [1, 0, 0, 1, 0, 0, 0, 0, 1, 1, 2, 0]"
  by (simp add: ex_params_def)

lemma ex_template [simp]: "p_v_template ex_params = Tensor2 2 3 [1, 0, 0, 0, 1, 0]"
  by (simp add: ex_params_def)

subsection \<open>Lines 148 to 177: the chain of joint transforms\<close>

lemma homog_cong:
  "(\<And>a b. a < 3 \<Longrightarrow> b < 3 \<Longrightarrow> R a b = R' a b) \<Longrightarrow> (\<And>a. a < 3 \<Longrightarrow> t a = t' a) \<Longrightarrow>
   homog R t a b = homog R' t' a b"
  by (simp add: homog_def)

lemma mk2_cong' [cong]:
  "n = n' \<Longrightarrow> m = m' \<Longrightarrow> (\<And>i j. i < n' \<Longrightarrow> j < m' \<Longrightarrow> g i j = h i j) \<Longrightarrow>
   mk2 n m g = mk2 n' m' h"
  by (auto intro: mk2_cong)

lemma mk3_cong' [cong]:
  "n = n' \<Longrightarrow> m = m' \<Longrightarrow> k = k' \<Longrightarrow>
   (\<And>i j l. i < n' \<Longrightarrow> j < m' \<Longrightarrow> l < k' \<Longrightarrow> g i j l = h i j l) \<Longrightarrow>
   mk3 n m k g = mk3 n' m' k' h"
  by (auto intro: mk3_cong)

lemma at2_Tensor2: "at2 (Tensor2 n m xs) i j = xs ! (i * m + j)"
  by (simp add: at2_def)

lemma at3_Tensor3: "at3 (Tensor3 n m k xs) i j l = xs ! ((i * m + j) * k + l)"
  by (simp add: at3_def)

lemma lt4_cases: "j < (4::nat) \<Longrightarrow> j = 0 \<or> j = 1 \<or> j = 2 \<or> j = 3"
  by arith

lemma lt3_cases: "j < (3::nat) \<Longrightarrow> j = 0 \<or> j = 1 \<or> j = 2"
  by arith

lemma joint_matrix_value:
  assumes "rows R = 3" "cols R = 3" "length t = 3"
  shows "joint_matrix R t = Inr (mk2 4 4 (homog (at2 R) (\<lambda>a. t ! a)))"
  apply (simp add: joint_matrix_def reshape_3_1_def cat2_dim1_def with_zeros_def cat2_dim0_def assms)
  apply (rule mk2_cong)
  subgoal for i j
    by (drule lt4_cases[of j]) (auto simp: homog_def assms at2_Tensor2)
  done

lemma index3_value: "i < d0 t \<Longrightarrow> index3 t i = Inr (mk2 (d1 t) (d2 t) (at3 t i))"
  by (simp add: index3_def)

lemma row2_value: "i < rows t \<Longrightarrow> row2 t i = Inr (map (at2 t i) [0..<cols t])"
  by (simp add: row2_def)

lemma root_transform_value:
  assumes "0 < d0 R" "d1 R = 3" "d2 R = 3" "0 < rows J" "cols J = 3"
  shows "root_transform R J = Inr (mk2 4 4 (homog (at3 R 0) (at2 J 0)))"
proof -
  have "mk2 4 4 (homog (at2 (mk2 3 3 (at3 R 0))) (\<lambda>a. map (at2 J 0) [0..<3] ! a))
      = mk2 4 4 (homog (at3 R 0) (at2 J 0))"
    by (intro mk2_cong homog_cong) simp_all
  then show ?thesis
    using assms by (simp add: root_transform_def index3_value row2_value joint_matrix_value)
qed

lemma chain_step:
  assumes "d1 R = 3" "d2 R = 3" "cols J = 3" "i < d0 R" "i < rows J" "p < rows J"
    and "par i = Some p" "p < length results" "rows (results ! p) = 4" "cols (results ! p) = 4"
  shows "chain par R J (i # js) results =
           chain par R J js (results @ [fk_step R J (results ! p) i p])"
proof -
  have jm: "joint_matrix (mk2 3 3 (at3 R i)) (map2 (-) (map (at2 J i) [0..<3]) (map (at2 J p) [0..<3]))
      = Inr (mk2 4 4 (homog (at3 R i) (\<lambda>c. at2 J i c - at2 J p c)))"
    apply (subst joint_matrix_value)
       apply simp_all
    apply (intro mk2_cong homog_cong)
     apply simp_all
    done
  have mm: "matmul2 (results ! p) (mk2 4 4 (homog (at3 R i) (\<lambda>c. at2 J i c - at2 J p c)))
      = Inr (fk_step R J (results ! p) i p)"
    using assms by (simp add: matmul2_def fk_step_def)
  show ?thesis
    using assms jm mm
    by (simp add: lookup_def list_index_def index3_value row2_value)
qed

lemma all44_nth: "all44 G \<Longrightarrow> j < length G \<Longrightarrow> rows (G ! j) = 4 \<and> cols (G ! j) = 4"
  by (simp add: all44_def list_all_length)

lemma all44_snoc [simp]: "all44 (G @ [H]) \<longleftrightarrow> all44 G \<and> rows H = 4 \<and> cols H = 4"
  by (auto simp: all44_def)

lemma fk_step_dims [simp]: "rows (fk_step R J Gp j p) = 4" "cols (fk_step R J Gp j p) = 4"
  by (simp_all add: fk_step_def)

lemma chain_value:
  assumes "d1 R = 3" "d2 R = 3" "cols J = 3" "K \<le> d0 R" "K \<le> rows J"
    and "\<forall>j. a \<le> j \<and> j < K \<longrightarrow> (\<exists>p<j. par j = Some p)"
    and "length results = a" "a \<le> K" "all44 results"
  shows "\<exists>G. chain par R J [a..<K] results = Inr G \<and> length G = K \<and> take a G = results \<and> all44 G \<and>
     (\<forall>j. a \<le> j \<and> j < K \<longrightarrow> G ! j = fk_step R J (G ! the (par j)) j (the (par j)))"
  using assms(6-)
proof (induction "K - a" arbitrary: a results)
  case 0
  then show ?case by auto
next
  case (Suc n)
  then have aK: "a < K" by simp
  from Suc.prems aK obtain p where p: "p < a" "par a = Some p" by auto
  let ?Ga = "fk_step R J (results ! p) a p"
  have step: "chain par R J [a..<K] results = chain par R J [Suc a..<K] (results @ [?Ga])"
  proof -
    have "chain par R J (a # [Suc a..<K]) results = chain par R J [Suc a..<K] (results @ [?Ga])"
      using aK assms(1-5) p Suc.prems by (intro chain_step) (auto simp: all44_nth)
    with aK show ?thesis by (simp add: upt_conv_Cons)
  qed
  have "\<exists>G. chain par R J [Suc a..<K] (results @ [?Ga]) = Inr G \<and> length G = K \<and>
      take (Suc a) G = results @ [?Ga] \<and> all44 G \<and>
      (\<forall>j. Suc a \<le> j \<and> j < K \<longrightarrow> G ! j = fk_step R J (G ! the (par j)) j (the (par j)))"
    using Suc.hyps(2) Suc.prems aK by (intro Suc.hyps(1)) auto
  then obtain G where G: "chain par R J [Suc a..<K] (results @ [?Ga]) = Inr G" "length G = K"
      "take (Suc a) G = results @ [?Ga]" "all44 G"
      "\<forall>j. Suc a \<le> j \<and> j < K \<longrightarrow> G ! j = fk_step R J (G ! the (par j)) j (the (par j))"
    by blast
  have pre: "G ! i = (results @ [?Ga]) ! i" if "i \<le> a" for i
    using G(3) that by (metis le_imp_less_Suc nth_take)
  have tk: "take a G = results"
    using G(3) Suc.prems(2) by (metis butlast_snoc butlast_take diff_Suc_1 G(2) aK Suc_leI)
  have Ga: "G ! a = fk_step R J (G ! the (par a)) a (the (par a))"
    using pre[of a] pre[of p] p Suc.prems(2) by (simp add: nth_append)
  have "G ! j = fk_step R J (G ! the (par j)) j (the (par j))" if "a \<le> j" "j < K" for j
    using that G(5) Ga by (cases "j = a") auto
  with G step tk show ?case by auto
qed

lemma stack_value:
  assumes "all44 G" "G \<noteq> []"
  shows "stack G = Inr (mk3 (length G) 4 4 (\<lambda>i x y. at2 (G ! i) x y))"
proof -
  from assms obtain H G' where G: "G = H # G'" by (cases G) auto
  with assms have "rows H = 4" "cols H = 4" by (auto simp: all44_def)
  with assms G show ?thesis by (auto simp: stack_def all44_def)
qed

lemma at3_reshape1 [simp]: "cols t = m \<Longrightarrow> at3 (Tensor3 n m (Suc 0) (elems t)) i j 0 = at2 t i j"
  by (simp add: at2_def at3_def)

lemma at2_reshape1 [simp]:
  "d1 t = m \<Longrightarrow> d2 t = Suc 0 \<Longrightarrow> at2 (Tensor2 n m (elems3 t)) i j = at3 t i j 0"
  by (simp add: at3_def at2_def)

lemma relative_transforms_value:
  assumes "all44 G" "length G = 24" "rows J = 24" "cols J = 3"
  shows "relative_transforms G J = Inr (mk3 24 4 4 (rel_entry G J))"
proof -
  have ne: "G \<noteq> []" using assms(2) by auto
  show ?thesis
    apply (simp add: relative_transforms_def stack_value[OF assms(1) ne] assms cat2_dim1_def
        reshape_24_4_1_def matmul3_def pack_def cat3_dim2_def bop3_def)
    apply (rule mk3_cong)
    subgoal for j a b
      by (drule lt4_cases[of b]) (auto simp: rel_entry_def assms intro!: sum.cong arg_cong2[of _ _ _ _ "(-)"])
    done
qed

subsection \<open>Lines 178 to 188: skinning\<close>

lemma tensordot2x3_same:
  assumes "cols a = d0 b"
  shows "tensordot2x3 a b =
     Inr (mk3 (rows a) (d1 b) (d2 b) (\<lambda>i x y. \<Sum>l<d0 b. at2 a i l * at3 b l x y))"
  using assms by (auto simp: tensordot2x3_def Let_def intro!: mk3_cong)

lemma skinning_value:
  assumes "cols w = d0 rel" "d1 rel = 4" "d2 rel = 4" "rows vp = rows w" "cols vp = 3"
    and "length t = 3"
  shows "skinning w rel vp t = Inr (mk2 (rows w) 3 (skin_entry w rel vp t))"
  apply (simp add: skinning_split assms skin_pre_def tensordot2x3_same cat2_dim1_def
      reshape_m1_4_1_def matmul3_def reshape_m1_4_def slice_cols3_def)
  apply (rule mk2_cong)
  apply (auto simp: skin_entry_def assms intro!: sum.cong arg_cong2[of _ _ _ _ "(+)"] arg_cong2[of _ _ _ _ "(*)"])
  done

subsection \<open>Lines 130 and 131: the dictionaries\<close>

lemma parent_loop_Inr:
  "parent_loop kt ids js d = Inr par \<Longrightarrow>
     (\<forall>j\<in>set js. par j = ids (fst (kt ! j)) \<and> par j \<noteq> None) \<and> (\<forall>j. j \<notin> set js \<longrightarrow> par j = d j)"
proof (induction js arbitrary: d)
  case Nil
  then show ?case by simp
next
  case (Cons i js)
  from Cons.prems obtain c where c: "ids (fst (kt ! i)) = Some c"
      and rest: "parent_loop kt ids js (d(i \<mapsto> c)) = Inr par"
    by (cases "ids (fst (kt ! i))") (simp_all add: lookup_def)
  note ih = Cons.IH[OF rest]
  have a: "par i = ids (fst (kt ! i)) \<and> par i \<noteq> None"
  proof (cases "i \<in> set js")
    case True
    with ih show ?thesis by blast
  next
    case False
    with ih have "par i = (d(i \<mapsto> c)) i" by blast
    with c show ?thesis by simp
  qed
  have b: "par j = d j" if "j \<notin> set (i # js)" for j
  proof -
    from that have "j \<notin> set js" "j \<noteq> i" by auto
    with ih have "par j = (d(i \<mapsto> c)) j" by blast
    with \<open>j \<noteq> i\<close> show ?thesis by simp
  qed
  from ih have c: "\<forall>j\<in>set js. par j = ids (fst (kt ! j)) \<and> par j \<noteq> None" by blast
  show ?case
  proof (intro conjI ballI allI impI)
    fix j assume "j \<in> set (i # js)"
    then have "j = i \<or> j \<in> set js" by simp
    with a c show "par j = ids (fst (kt ! j))" by blast
    from \<open>j = i \<or> j \<in> set js\<close> a c show "par j \<noteq> None" by blast
  next
    fix j assume "j \<notin> set (i # js)"
    then show "par j = d j" by (rule b)
  qed
qed

lemma parent_loop_total:
  "\<forall>j\<in>set js. ids (fst (kt ! j)) \<noteq> None \<Longrightarrow> \<exists>par. parent_loop kt ids js d = Inr par"
proof (induction js arbitrary: d)
  case Nil
  then show ?case by simp
next
  case (Cons i js)
  then obtain c where c: "ids (fst (kt ! i)) = Some c" by auto
  from Cons have "\<exists>par. parent_loop kt ids js (d(i \<mapsto> c)) = Inr par" by simp
  with c show ?case by (simp add: lookup_def)
qed

lemma parent_dict_Inr:
  assumes "parent_dict kt = Inr par" "1 \<le> j" "j < length kt"
  shows "par j = id_to_col kt (fst (kt ! j))"
proof -
  from assms(2,3) have "j \<in> set [1..<length kt]" by simp
  with parent_loop_Inr[OF assms(1)[unfolded parent_dict_def]] show ?thesis by blast
qed

lemma parent_dict_total:
  assumes "\<forall>j. 1 \<le> j \<and> j < length kt \<longrightarrow> (\<exists>p<j. id_to_col kt (fst (kt ! j)) = Some p)"
  shows "\<exists>par. parent_dict kt = Inr par \<and> (\<forall>j. 1 \<le> j \<and> j < length kt \<longrightarrow> (\<exists>p<j. par j = Some p))"
proof -
  have "\<forall>j\<in>set [1..<length kt]. id_to_col kt (fst (kt ! j)) \<noteq> None"
  proof
    fix j assume "j \<in> set [1..<length kt]"
    then have "1 \<le> j \<and> j < length kt" by simp
    with assms obtain p where "id_to_col kt (fst (kt ! j)) = Some p" by blast
    then show "id_to_col kt (fst (kt ! j)) \<noteq> None" by simp
  qed
  then obtain par where par: "parent_dict kt = Inr par"
    unfolding parent_dict_def using parent_loop_total by blast
  have "\<exists>p<j. par j = Some p" if "1 \<le> j \<and> j < length kt" for j
    using that assms parent_dict_Inr[OF par, of j] by simp
  with par show ?thesis by blast
qed

subsection \<open>Finite entries\<close>

lemma fin_ops:
  "a \<noteq> NaN \<Longrightarrow> b \<noteq> NaN \<Longrightarrow> a + b \<noteq> NaN"
  "a \<noteq> NaN \<Longrightarrow> b \<noteq> NaN \<Longrightarrow> a * b \<noteq> NaN"
  "a \<noteq> NaN \<Longrightarrow> b \<noteq> NaN \<Longrightarrow> a - b \<noteq> NaN"
  "(0::num) \<noteq> NaN" "(1::num) \<noteq> NaN"
  by (cases a; cases b; simp add: num_consts)+

lemma fin_sum: "(\<And>i. i \<in> A \<Longrightarrow> g i \<noteq> NaN) \<Longrightarrow> sum g A \<noteq> NaN"
  by (induction A rule: infinite_finite_induct) (auto simp: fin_ops)

lemma NaN_sum: "finite A \<Longrightarrow> i \<in> A \<Longrightarrow> g i = NaN \<Longrightarrow> sum g A = NaN"
  by (simp add: sum.remove)

lemma fin2_float2 [simp]: "fin2 (float2 t)"
  by (simp add: fin2_def)

lemma fin3_float3 [simp]: "fin3 (float3 t)"
  by (simp add: fin3_def)

lemma fin2_mk2: "fin2 (mk2 n m g) \<longleftrightarrow> (\<forall>i<n. \<forall>j<m. g i j \<noteq> NaN)"
  by (simp add: fin2_def)

lemma fin3_mk3: "fin3 (mk3 n m k g) \<longleftrightarrow> (\<forall>i<n. \<forall>j<m. \<forall>l<k. g i j l \<noteq> NaN)"
  by (simp add: fin3_def)

subsection \<open>The rotation matrices\<close>

lemma sq3_zero:
  "x * x + y * y + z * z = 0 \<longleftrightarrow> x = 0 \<and> y = 0 \<and> (z::real) = 0"
  by (simp add: add_nonneg_eq_0_iff)

lemma rodrigues_value:
  assumes "d1 r = 1" "d2 r = 3"
  shows "rodrigues r noise = Inr (mk3 (d0 r) 3 3 (\<lambda>i. rod_entry (at3 r i 0) (noise i 0)))"
  using assms by (simp add: rodrigues_def Let_def rod_entry_def)

lemma rod_entry_finite:
  assumes "v 0 = Fin a" "v (Suc 0) = Fin b" "v 2 = Fin c"
    and "a + e 0 \<noteq> 0 \<or> b + e (Suc 0) \<noteq> 0 \<or> c + e 2 \<noteq> 0" "x < 3" "y < 3"
  shows "rod_entry v e x y \<noteq> NaN"
proof -
  let ?s = "(a + e 0) * (a + e 0) + (b + e (Suc 0)) * (b + e (Suc 0)) + (c + e 2) * (c + e 2)"
  from assms(4) have "?s \<noteq> 0" by (simp only: sq3_zero) blast
  then have s: "sqrt ?s \<noteq> 0" by simp
  have th: "nsqrt (\<Sum>l<3. (v l + Fin (e l)) * (v l + Fin (e l))) = Fin (sqrt ?s)"
    by (simp add: sum3 assms(1-3))
  from lt3_cases[OF assms(5)] lt3_cases[OF assms(6)] show ?thesis
    unfolding rod_entry_def Let_def th
    using s by (elim disjE) (simp_all add: num_consts assms(1-3))
qed

lemma ndiv_zero [simp]: "ndiv a (Fin 0) = NaN"
  by (cases a) simp_all

lemma rod_entry_zero_NaN:
  "v 0 = 0 \<Longrightarrow> v (Suc 0) = 0 \<Longrightarrow> v 2 = 0 \<Longrightarrow> e 0 = 0 \<Longrightarrow> e (Suc 0) = 0 \<Longrightarrow> e 2 = 0 \<Longrightarrow>
   rod_entry v e x y = NaN"
  by (simp add: rod_entry_def Let_def sum3 num_consts)

lemma upt9: "[0..<9] = [0, 1, 2, 3, 4, 5, 6, 7, 8::nat]"
  by code_simp

lemma upt6: "[0..<6] = [0, 1, 2, 3, 4, 5::nat]"
  by code_simp

lemma ex_s1_fields [simp]:
  "p_shapedirs ex_params_s1 = Tensor3 2 3 1 [1, 0, 0, 0, 1, 0]"
  "p_v_template ex_params_s1 = Tensor2 2 3 [1, 0, 0, 0, 1, 0]"
  by (simp_all add: ex_params_s1_def)

lemma skinning_shift:
  "skinning w rel vp [Fin 1, 0, 0] =
     (case skinning w rel vp [0, 0, 0] of Inl e \<Rightarrow> Inl e
      | Inr vs \<Rightarrow> Inr (mk2 (rows vs) (cols vs) (\<lambda>v c. at2 vs v c + [Fin 1, 0, 0] ! c)))"
  apply (simp add: skinning_split)
  apply (cases "skin_pre w rel vp")
   apply simp
  apply simp
  apply (rule mk2_cong)
  apply (auto simp: nth_Cons' zero_num_def)
  done

lemma tensordot3x1_mismatch:
  "d2 a \<noteq> length b \<Longrightarrow> length b \<noteq> 1 \<Longrightarrow> d2 a \<noteq> 1 \<Longrightarrow> tensordot3x1 a b = Inl RuntimeError"
  by (simp add: tensordot3x1_def)

subsection \<open>Lines 136 to 145: the posed vertices\<close>

lemma bop3_same:
  "d0 a = n \<Longrightarrow> d1 a = m \<Longrightarrow> d2 a = k \<Longrightarrow> d0 b = n \<Longrightarrow> d1 b = m \<Longrightarrow> d2 b = k \<Longrightarrow>
   bop3 h a b = Inr (mk3 n m k (\<lambda>i j l. h (at3 a i j l) (at3 b i j l)))"
  by (auto simp: bop3_def intro!: mk3_cong)

lemma length_elems3_mk3 [simp]: "length (elems3 (mk3 n m k g)) = n * m * k"
  by (simp add: mk3_def)

lemma elems3_mk3_all:
  assumes "\<And>i j l. i < n \<Longrightarrow> j < m \<Longrightarrow> l < k \<Longrightarrow> P (g i j l)" "p < n * m * k"
  shows "P (elems3 (mk3 n m k g) ! p)"
proof -
  from assms(2) have "0 < k" by (cases k) simp_all
  moreover from assms(2) have "0 < m" by (cases m) simp_all
  moreover from assms(2) have "p div (m * k) < n"
    by (simp add: less_mult_imp_div_less mult.assoc)
  ultimately have "P (g (p div (m * k)) (p div k mod m) (p mod k))"
    by (intro assms(1)) simp_all
  with assms(2) show ?thesis by (simp add: mk3_def)
qed

lemma v_posed_value:
  assumes "d0 R = K" "d1 R = 3" "d2 R = 3"
    and "d0 (posedirs self) = V" "d1 (posedirs self) = 3" "d2 (posedirs self) = 9 * (K - 1)"
    and "rows vs = V" "cols vs = 3"
  shows "\<exists>vp. v_posed self R vs False = Inr vp \<and> rows vp = V \<and> cols vp = 3 \<and>
     (fin2 vs \<longrightarrow> fin3 (posedirs self) \<longrightarrow> fin3 R \<longrightarrow> fin2 vp)"
proof -
  let ?dev = "mk3 (K - 1) 3 3 (\<lambda>i j l. at3 (slice_from1 R) i j l - at3 (mk3 (K - 1) 3 3 (\<lambda>i x y. if x = y then 1 else 0)) i j l)"
  let ?pd = "mk2 V 3 (\<lambda>i j. \<Sum>l<length (elems3 ?dev). at3 (posedirs self) i j l * elems3 ?dev ! l)"
  let ?vp = "mk2 V 3 (\<lambda>i j. at2 vs i j + at2 ?pd i j)"
  have dev: "bop3 (-) (slice_from1 R) (mk3 (d0 (slice_from1 R)) 3 3 (\<lambda>i x y. if x = y then 1 else 0)) = Inr ?dev"
  proof -
    have d: "d0 (slice_from1 R) = K - 1" "d1 (slice_from1 R) = 3" "d2 (slice_from1 R) = 3"
      using assms by (simp_all add: slice_from1_def)
    show ?thesis unfolding d(1) by (rule bop3_same) (simp_all add: d)
  qed
  have len: "length (elems3 ?dev) \<noteq> 1" by simp
  have td: "tensordot3x1 (posedirs self) (elems3 ?dev) = Inr ?pd"
    using tensordot3x1_same[of "posedirs self" "elems3 ?dev"] assms by simp
  have add: "bop2 (+) vs ?pd = Inr ?vp"
    using assms by (intro bop2_same) simp_all
  have val: "v_posed self R vs False = Inr ?vp"
    unfolding v_posed_def Let_def using len by (simp only: dev td add bnd_Inr if_False)
  have fin: "fin2 ?vp" if f: "fin2 vs" "fin3 (posedirs self)" "fin3 R"
  proof -
    have lr: "elems3 ?dev ! p \<noteq> NaN" if "p < (K - 1) * 3 * 3" for p
    proof (rule elems3_mk3_all[OF _ that])
      fix i j l assume "i < K - 1" "j < (3::nat)" "l < (3::nat)"
      then have a: "at3 (slice_from1 R) i j l \<noteq> NaN"
        and b: "at3 (mk3 (K - 1) 3 3 (\<lambda>i x y. if x = y then 1 else (0::num))) i j l \<noteq> NaN"
        using f(3) assms(1-3) by (simp_all add: slice_from1_def fin3_def fin_ops)
      show "at3 (slice_from1 R) i j l - at3 (mk3 (K - 1) 3 3 (\<lambda>i x y. if x = y then 1 else 0)) i j l \<noteq> NaN"
        using a b by (rule fin_ops)
    qed
    show ?thesis
      unfolding fin2_mk2
    proof (intro allI impI)
      fix i j assume ij: "i < V" "j < (3::nat)"
      have "(\<Sum>l<length (elems3 ?dev). at3 (posedirs self) i j l * elems3 ?dev ! l) \<noteq> NaN"
        using ij f(2) assms(4-6) lr by (intro fin_sum fin_ops) (auto simp: fin3_def)
      with ij have b: "at2 ?pd i j \<noteq> NaN" by simp
      from ij f(1) assms(7,8) have a: "at2 vs i j \<noteq> NaN" by (simp add: fin2_def)
      from a b show "at2 vs i j + at2 ?pd i j \<noteq> NaN" by (rule fin_ops)
    qed
  qed
  show ?thesis using val fin by (intro exI[of _ ?vp]) simp
qed

subsection \<open>The forward pass as a composition of its stages\<close>

lemma at3_view [simp]: "cols t = 3 \<Longrightarrow> at3 (Tensor3 n (Suc 0) 3 (elems t)) i 0 l = at2 t i l"
  by (simp add: at3_def at2_def)

lemma view_value:
  "rows pose = K \<Longrightarrow> cols pose = 3 \<Longrightarrow> view_m1_1_3 pose = Inr (Tensor3 K 1 3 (elems pose))"
  by (simp add: view_m1_1_3_def)

lemma rod_entry_cong:
  "(\<And>l. l < 3 \<Longrightarrow> v l = v' l) \<Longrightarrow> x < 3 \<Longrightarrow> y < 3 \<Longrightarrow> rod_entry v e x y = rod_entry v' e x y"
  by (simp add: rod_entry_def sum3)

lemma rodrigues_view:
  assumes "cols pose = 3"
  shows "rodrigues (Tensor3 (rows pose) 1 3 (elems pose)) noise = Inr (rot_of pose noise)"
proof -
  have "mk3 (rows pose) 3 3 (\<lambda>i. rod_entry (at3 (Tensor3 (rows pose) 1 3 (elems pose)) i 0) (noise i 0))
      = rot_of pose noise"
    unfolding rot_of_def using assms by (intro mk3_cong rod_entry_cong) simp_all
  then show ?thesis
    using rodrigues_value[of "Tensor3 (rows pose) 1 3 (elems pose)" noise] by simp
qed

lemma forward_prefix:
  assumes ok: "shapes_ok self beta pose simplify V K"
    and par: "parent_dict (kintree_table self) = Inr par"
  shows "\<exists>vp.
      v_shaped self beta = Inr (shaped_of self beta) \<and>
      v_posed self (rot_of pose noise) (shaped_of self beta) simplify = Inr vp \<and>
      rows vp = V \<and> cols vp = 3 \<and>
      (fin2 (shaped_of self beta) \<longrightarrow> fin3 (posedirs self) \<longrightarrow> fin3 (rot_of pose noise) \<longrightarrow> fin2 vp) \<and>
      forward self beta pose trns simplify noise =
        bnd (chain par (rot_of pose noise) (joints_of self beta) [1..<K] [root_of self beta pose noise])
         (\<lambda>G. bnd (relative_transforms G (joints_of self beta)) (\<lambda>rel.
              bnd (skinning (weights self) rel vp trns) (\<lambda>vertices. Inr (vertices, faces self))))"
proof -
  let ?R = "rot_of pose noise"
  let ?vs = "shaped_of self beta"
  let ?J = "joints_of self beta"
  let ?G0 = "root_of self beta pose noise"
  from ok have sd: "d0 (shapedirs self) = V" "d1 (shapedirs self) = 3" "d2 (shapedirs self) = length beta"
    and tm: "rows (v_template self) = V" "cols (v_template self) = 3"
    and jr: "rows (J_regressor self) = K" "cols (J_regressor self) = V"
    and kt: "length (kintree_table self) = K" "0 < K"
    and ps: "rows pose = K" "cols pose = 3"
    and pd: "simplify \<or> (d0 (posedirs self) = V \<and> d1 (posedirs self) = 3 \<and> d2 (posedirs self) = 9 * (K - 1))"
    by (simp_all add: shapes_ok_def)
  have vs: "v_shaped self beta = Inr ?vs"
    unfolding shaped_of_def sd(1) using sd tm by (rule v_shaped_value)
  have vsd: "rows ?vs = V" "cols ?vs = 3" by (simp_all add: shaped_of_def sd)
  have J: "matmul2 (J_regressor self) ?vs = Inr ?J"
    using jr vsd by (simp add: matmul2_def joints_of_def)
  have Jd: "rows ?J = K" "cols ?J = 3" by (simp_all add: joints_of_def jr)
  have view: "view_m1_1_3 pose = Inr (Tensor3 K 1 3 (elems pose))"
    using ps by (rule view_value)
  have R: "rodrigues (Tensor3 K 1 3 (elems pose)) noise = Inr ?R"
    using rodrigues_view[OF ps(2), of noise] ps(1) by simp
  have Rd: "d0 ?R = K" "d1 ?R = 3" "d2 ?R = 3"
    using ps by (simp_all add: rot_of_def)
  obtain vp where vp: "v_posed self ?R ?vs simplify = Inr vp" "rows vp = V" "cols vp = 3"
      "fin2 ?vs \<longrightarrow> fin3 (posedirs self) \<longrightarrow> fin3 ?R \<longrightarrow> fin2 vp"
  proof (cases simplify)
    case True
    then show ?thesis using that[of ?vs] vsd by (simp add: v_posed_def)
  next
    case False
    with pd have "d0 (posedirs self) = V" "d1 (posedirs self) = 3" "d2 (posedirs self) = 9 * (K - 1)"
      by auto
    from v_posed_value[OF Rd this vsd] obtain vp' where
      "v_posed self ?R ?vs False = Inr vp'" "rows vp' = V" "cols vp' = 3"
      "fin2 ?vs \<longrightarrow> fin3 (posedirs self) \<longrightarrow> fin3 ?R \<longrightarrow> fin2 vp'"
      by auto
    with False show ?thesis by (intro that[of vp']) simp_all
  qed
  have G0: "root_transform ?R ?J = Inr ?G0"
    unfolding root_of_def using Rd Jd kt(2) by (intro root_transform_value) simp_all
  have fw: "forward self beta pose trns simplify noise =
        bnd (chain par ?R ?J [1..<K] [?G0])
         (\<lambda>G. bnd (relative_transforms G ?J) (\<lambda>rel.
              bnd (skinning (weights self) rel vp trns) (\<lambda>vertices. Inr (vertices, faces self))))"
    unfolding forward_def using kt(1)
    by (simp only: par vs J view R vp(1) G0 bnd_Inr)
  show ?thesis
    apply (rule exI[of _ vp])
    apply (intro conjI)
    apply (fact vs vp fw)+
    done
qed

lemma shapes_dims:
  assumes "shapes_ok self beta pose simplify V K"
  shows "d0 (rot_of pose noise) = K" "d1 (rot_of pose noise) = 3" "d2 (rot_of pose noise) = 3"
    "rows (joints_of self beta) = K" "cols (joints_of self beta) = 3"
    "rows (shaped_of self beta) = V" "cols (shaped_of self beta) = 3"
    "rows (root_of self beta pose noise) = 4" "cols (root_of self beta pose noise) = 4"
  using assms by (simp_all add: shapes_ok_def rot_of_def joints_of_def shaped_of_def root_of_def)

lemma topologicalD:
  assumes "topological kt" "1 \<le> j" "j < length kt"
  shows "\<exists>p<j. id_to_col kt (fst (kt ! j)) = Some p"
proof -
  from assms(2,3) have "j \<in> set [1..<length kt]" by simp
  with assms(1) have "case id_to_col kt (fst (kt ! j)) of None \<Rightarrow> False | Some p \<Rightarrow> p < j"
    unfolding topological_def list_all_iff by blast
  then show ?thesis by (cases "id_to_col kt (fst (kt ! j))") simp_all
qed

lemma consistent_stages:
  assumes ok: "shapes_ok self beta pose simplify V K" and tp: "topological (kintree_table self)"
  shows "\<exists>par vp G.
      parent_dict (kintree_table self) = Inr par \<and>
      (\<forall>j. 1 \<le> j \<and> j < K \<longrightarrow> (\<exists>p<j. par j = Some p)) \<and>
      v_posed self (rot_of pose noise) (shaped_of self beta) simplify = Inr vp \<and>
      rows vp = V \<and> cols vp = 3 \<and>
      (fin2 (shaped_of self beta) \<longrightarrow> fin3 (posedirs self) \<longrightarrow> fin3 (rot_of pose noise) \<longrightarrow> fin2 vp) \<and>
      chain par (rot_of pose noise) (joints_of self beta) [1..<K] [root_of self beta pose noise] = Inr G \<and>
      length G = K \<and> all44 G \<and> G ! 0 = root_of self beta pose noise \<and>
      (\<forall>j. 1 \<le> j \<and> j < K \<longrightarrow>
         G ! j = fk_step (rot_of pose noise) (joints_of self beta) (G ! the (par j)) j (the (par j))) \<and>
      forward self beta pose trns simplify noise =
        bnd (relative_transforms G (joints_of self beta)) (\<lambda>rel.
        bnd (skinning (weights self) rel vp trns) (\<lambda>vertices. Inr (vertices, faces self)))"
proof -
  let ?R = "rot_of pose noise"
  let ?J = "joints_of self beta"
  let ?G0 = "root_of self beta pose noise"
  from ok have K: "length (kintree_table self) = K" "0 < K" by (simp_all add: shapes_ok_def)
  have t: "\<forall>j. 1 \<le> j \<and> j < length (kintree_table self) \<longrightarrow>
          (\<exists>p<j. id_to_col (kintree_table self) (fst (kintree_table self ! j)) = Some p)"
    using topologicalD[OF tp] by blast
  from parent_dict_total[OF t] K obtain par where
    par: "parent_dict (kintree_table self) = Inr par"
      "\<forall>j. 1 \<le> j \<and> j < K \<longrightarrow> (\<exists>p<j. par j = Some p)"
    by auto
  from forward_prefix[OF ok par(1), where noise=noise and trns=trns] obtain vp where
    vp: "v_posed self ?R (shaped_of self beta) simplify = Inr vp" "rows vp = V" "cols vp = 3"
      "fin2 (shaped_of self beta) \<longrightarrow> fin3 (posedirs self) \<longrightarrow> fin3 ?R \<longrightarrow> fin2 vp"
    and fw: "forward self beta pose trns simplify noise =
        bnd (chain par ?R ?J [1..<K] [?G0])
         (\<lambda>G. bnd (relative_transforms G ?J) (\<lambda>rel.
              bnd (skinning (weights self) rel vp trns) (\<lambda>vertices. Inr (vertices, faces self))))"
    by blast
  note d = shapes_dims[OF ok]
  have "\<exists>G. chain par ?R ?J [1..<K] [?G0] = Inr G \<and> length G = K \<and> take 1 G = [?G0] \<and> all44 G \<and>
     (\<forall>j. 1 \<le> j \<and> j < K \<longrightarrow> G ! j = fk_step ?R ?J (G ! the (par j)) j (the (par j)))"
    using d K(2) par(2) by (intro chain_value) (simp_all add: all44_def)
  then obtain G where G: "chain par ?R ?J [1..<K] [?G0] = Inr G" "length G = K" "take 1 G = [?G0]"
      "all44 G" "\<forall>j. 1 \<le> j \<and> j < K \<longrightarrow> G ! j = fk_step ?R ?J (G ! the (par j)) j (the (par j))"
    by blast
  have "take 1 G ! 0 = G ! 0" by (simp del: take_Suc)
  with G(3) have G0': "G ! 0 = ?G0" by simp
  have fw': "forward self beta pose trns simplify noise =
        bnd (relative_transforms G ?J) (\<lambda>rel.
        bnd (skinning (weights self) rel vp trns) (\<lambda>vertices. Inr (vertices, faces self)))"
    unfolding fw by (simp only: G(1) bnd_Inr)
  show ?thesis
    apply (rule exI[of _ par], rule exI[of _ vp], rule exI[of _ G])
    apply (intro conjI)
    apply (fact par vp G G0' fw')+
    done
qed

subsection \<open>Failures\<close>

lemma relative_transforms_not24:
  "rows J \<noteq> 24 \<Longrightarrow> relative_transforms results J = Inl RuntimeError"
  by (cases "stack results") (auto simp: relative_transforms_def stack_def cat2_dim1_def split: list.splits if_splits)

lemma bnd_fails: "(\<And>v. x = Inr v \<Longrightarrow> \<exists>e. g v = Inl e) \<Longrightarrow> \<exists>e. bnd x g = Inl e"
  by (cases x) simp_all

lemma matmul2_rows: "matmul2 a b = Inr c \<Longrightarrow> rows c = rows a"
  by (auto simp: matmul2_def split: if_splits)

lemma forward_not24:
  assumes "rows (J_regressor self) \<noteq> 24"
  shows "\<exists>e. forward self beta pose trns simplify noise = Inl e"
  unfolding forward_def
  apply (intro bnd_fails)
  apply (drule matmul2_rows)
  apply (simp add: relative_transforms_not24 assms)
  done

lemma chain_append:
  "chain par R J (xs @ ys) results = bnd (chain par R J xs results) (chain par R J ys)"
proof (induction xs arbitrary: results)
  case Nil
  then show ?case by simp
next
  case (Cons i xs)
  show ?case
    by (simp add: Cons bnd_def split: sum.splits)
qed

lemma chain_bad_parent:
  assumes "\<forall>p. par j = Some p \<longrightarrow> length results \<le> p"
  shows "\<exists>e. chain par R J (j # js) results = Inl e"
  using assms by (cases "par j") (simp_all add: lookup_def list_index_def)

lemma chain_fails:
  assumes "a \<le> j" "j < K" "length results = a" "\<forall>p. par j = Some p \<longrightarrow> j \<le> p"
  shows "\<exists>e. chain par R J [a..<K] results = Inl e"
  using assms
proof (induction "j - a" arbitrary: a results)
  case 0
  then have "[a..<K] = j # [Suc j..<K]" "a = j" by (simp_all add: upt_conv_Cons)
  with 0 chain_bad_parent[of par j results R J] show ?case by simp
next
  case (Suc n)
  then have u: "[a..<K] = a # [Suc a..<K]" by (simp add: upt_conv_Cons)
  have ih: "\<exists>e. chain par R J [Suc a..<K] (results @ [G]) = Inl e" for G
    using Suc.prems Suc.hyps(2) by (intro Suc.hyps(1)) simp_all
  show ?case
    unfolding u chain.simps using ih by (intro bnd_fails) simp
qed

subsection \<open>Tables whose identifiers are the column indices\<close>

lemma id_to_col_prefix:
  assumes "\<forall>i<length kt. snd (kt ! i) = i" "n \<le> length kt"
  shows "fold (\<lambda>i d. d(snd (kt ! i) \<mapsto> i)) [0..<n] Map.empty = (\<lambda>x. if x < n then Some x else None)"
  using assms(2)
proof (induction n)
  case 0
  then show ?case by simp
next
  case (Suc n)
  then have "snd (kt ! n) = n" using assms(1) by simp
  with Suc show ?case by (auto simp: fun_eq_iff)
qed

lemma id_to_col_ident:
  assumes "\<forall>i<length kt. snd (kt ! i) = i"
  shows "id_to_col kt x = (if x < length kt then Some x else None)"
  unfolding id_to_col_def using id_to_col_prefix[OF assms, of "length kt"] by simp

lemma topological_ident:
  assumes "\<forall>i<length kt. snd (kt ! i) = i" "list_all (\<lambda>j. fst (kt ! j) < j) [1..<length kt]"
  shows "topological kt"
  unfolding topological_def
  using assms(2) by (auto simp: list_all_iff id_to_col_ident[OF assms(1)])

lemma smpl_kintree_len [simp]: "length smpl_kintree = 24"
  by (simp add: smpl_kintree_def)

lemma smpl_kintree_ids: "\<forall>i<length smpl_kintree. snd (smpl_kintree ! i) = i"
  by (simp add: smpl_kintree_def)

lemma topological_smpl: "topological smpl_kintree"
proof (rule topological_ident[OF smpl_kintree_ids])
  have "[0..<24] = [0, 1, 2, 3, 4, 5, 6, 7, 8, 9, 10, 11, 12, 13, 14, 15, 16, 17, 18, 19, 20, 21, 22, 23::nat]"
    by code_simp
  then show "list_all (\<lambda>j. fst (smpl_kintree ! j) < j) [1..<length smpl_kintree]"
    by (simp add: smpl_kintree_def)
qed

subsection \<open>Finite entries along the chain\<close>

lemma homog_fin:
  assumes "\<And>a b. a < 3 \<Longrightarrow> b < 3 \<Longrightarrow> R a b \<noteq> NaN" "\<And>a. a < 3 \<Longrightarrow> t a \<noteq> NaN"
  shows "homog R t a b \<noteq> NaN"
  using assms by (simp add: homog_def fin_ops)

lemma fk_step_fin:
  assumes "fin2 Gp" "rows Gp = 4" "cols Gp = 4"
    and "\<And>a b. a < 3 \<Longrightarrow> b < 3 \<Longrightarrow> at3 R j a b \<noteq> NaN"
    and "\<And>a. a < 3 \<Longrightarrow> at2 J j a \<noteq> NaN" "\<And>a. a < 3 \<Longrightarrow> at2 J p a \<noteq> NaN"
  shows "fin2 (fk_step R J Gp j p)"
  unfolding fk_step_def fin2_mk2
proof (intro allI impI)
  fix x y :: nat assume xy: "x < 4" "y < 4"
  show "(\<Sum>l<4. at2 Gp x l * homog (at3 R j) (\<lambda>c. at2 J j c - at2 J p c) l y) \<noteq> NaN"
  proof (intro fin_sum fin_ops homog_fin)
    fix l :: nat assume "l \<in> {..<4}"
    with xy assms(1-3) show "at2 Gp x l \<noteq> NaN" by (simp add: fin2_def)
  qed (use assms in auto)
qed

lemma chain_fin:
  assumes len: "length G = K" and a44: "all44 G"
    and G0: "G ! 0 = mk2 4 4 (homog (at3 R 0) (at2 J 0))"
    and Gj: "\<forall>j. 1 \<le> j \<and> j < K \<longrightarrow> G ! j = fk_step R J (G ! the (par j)) j (the (par j))"
    and par: "\<forall>j. 1 \<le> j \<and> j < K \<longrightarrow> (\<exists>p<j. par j = Some p)"
    and R: "fin3 R" "d0 R = K" "d1 R = 3" "d2 R = 3"
    and J: "fin2 J" "rows J = K" "cols J = 3"
    and j: "j < K"
  shows "fin2 (G ! j)"
  using j
proof (induction j rule: less_induct)
  case (less j)
  have Rf: "at3 R i a b \<noteq> NaN" if "i < K" "a < 3" "b < 3" for i a b
    using R that by (simp add: fin3_def)
  have Jf: "at2 J i a \<noteq> NaN" if "i < K" "a < 3" for i a
    using J that by (simp add: fin2_def)
  show ?case
  proof (cases "j = 0")
    case True
    have "fin2 (mk2 4 4 (homog (at3 R 0) (at2 J 0)))"
      unfolding fin2_mk2 using less.prems True by (intro allI impI homog_fin Rf Jf) simp_all
    with True G0 show ?thesis by simp
  next
    case False
    then have "1 \<le> j \<and> j < K" using less.prems by simp
    with par have "\<exists>p<j. par j = Some p" by blast
    then obtain p where p: "p < j" "par j = Some p" by blast
    with less have fp: "fin2 (G ! p)" by simp
    from p less.prems len a44 have d: "rows (G ! p) = 4" "cols (G ! p) = 4"
      by (simp_all add: all44_nth)
    have "fin2 (fk_step R J (G ! p) j p)"
      using fp d p(1) less.prems by (intro fk_step_fin Rf Jf) simp_all
    with Gj False less.prems p show ?thesis by simp
  qed
qed

lemma rel_entry_fin:
  assumes "fin2 (G ! j)" "rows (G ! j) = 4" "cols (G ! j) = 4" "a < 4" "b < 4"
    and "\<And>l. l < 3 \<Longrightarrow> at2 J j l \<noteq> NaN"
  shows "rel_entry G J j a b \<noteq> NaN"
proof -
  have g: "at2 (G ! j) a l \<noteq> NaN" if "l < 4" for l
    using assms(1-4) that by (simp add: fin2_def)
  have "(\<Sum>l<4. at2 (G ! j) a l * (if l < 3 then at2 J j l else 0)) \<noteq> NaN"
    using g assms(6) by (intro fin_sum fin_ops) (auto simp: fin_ops)
  then have "(if b < 3 then 0 else \<Sum>l<4. at2 (G ! j) a l * (if l < 3 then at2 J j l else 0)) \<noteq> NaN"
    by (simp add: fin_ops)
  with g[OF assms(5)] show ?thesis
    unfolding rel_entry_def by (rule fin_ops)
qed

lemma skin_entry_fin:
  assumes "\<And>j. j < d0 rel \<Longrightarrow> at2 w v j \<noteq> NaN"
    and "\<And>j l. j < d0 rel \<Longrightarrow> l < 4 \<Longrightarrow> at3 rel j c l \<noteq> NaN"
    and "\<And>l. l < 3 \<Longrightarrow> at2 vp v l \<noteq> NaN" "t ! c \<noteq> NaN"
  shows "skin_entry w rel vp t v c \<noteq> NaN"
  unfolding skin_entry_def
  using assms by (intro fin_sum fin_ops) (auto simp: fin_ops)

lemma skin_entry_NaN:
  assumes "j < d0 rel" "l < 4" "at3 rel j c l = NaN"
  shows "skin_entry w rel vp t v c = NaN"
proof -
  have "(\<Sum>j<d0 rel. at2 w v j * at3 rel j c l) = NaN"
    using assms by (intro NaN_sum[of _ j]) simp_all
  then have "(\<Sum>l<4. (\<Sum>j<d0 rel. at2 w v j * at3 rel j c l) * (if l < 3 then at2 vp v l else 1)) = NaN"
    using assms(2) by (intro NaN_sum[of _ l]) simp_all
  then show ?thesis by (simp add: skin_entry_def)
qed

subsection \<open>The value of the forward pass\<close>

lemma forward_value:
  assumes ok: "shapes_ok self beta pose simplify V 24" and tp: "topological (kintree_table self)"
    and t3: "length trns = 3"
  shows "\<exists>par vp G.
      parent_dict (kintree_table self) = Inr par \<and>
      (\<forall>j. 1 \<le> j \<and> j < 24 \<longrightarrow> (\<exists>p<j. par j = Some p)) \<and>
      v_posed self (rot_of pose noise) (shaped_of self beta) simplify = Inr vp \<and>
      rows vp = V \<and> cols vp = 3 \<and>
      (fin2 (shaped_of self beta) \<longrightarrow> fin3 (posedirs self) \<longrightarrow> fin3 (rot_of pose noise) \<longrightarrow> fin2 vp) \<and>
      length G = 24 \<and> all44 G \<and> G ! 0 = root_of self beta pose noise \<and>
      (\<forall>j. 1 \<le> j \<and> j < 24 \<longrightarrow>
         G ! j = fk_step (rot_of pose noise) (joints_of self beta) (G ! the (par j)) j (the (par j))) \<and>
      forward self beta pose trns simplify noise =
        Inr (mk2 V 3 (skin_entry (weights self) (mk3 24 4 4 (rel_entry G (joints_of self beta))) vp trns),
             faces self)"
proof -
  let ?J = "joints_of self beta"
  from consistent_stages[OF ok tp, where noise=noise and trns=trns] obtain par vp G where
    s: "parent_dict (kintree_table self) = Inr par"
      "\<forall>j. 1 \<le> j \<and> j < 24 \<longrightarrow> (\<exists>p<j. par j = Some p)"
      "v_posed self (rot_of pose noise) (shaped_of self beta) simplify = Inr vp"
      "rows vp = V" "cols vp = 3"
      "fin2 (shaped_of self beta) \<longrightarrow> fin3 (posedirs self) \<longrightarrow> fin3 (rot_of pose noise) \<longrightarrow> fin2 vp"
      "length G = 24" "all44 G" "G ! 0 = root_of self beta pose noise"
      "\<forall>j. 1 \<le> j \<and> j < 24 \<longrightarrow>
         G ! j = fk_step (rot_of pose noise) ?J (G ! the (par j)) j (the (par j))"
    and fw: "forward self beta pose trns simplify noise =
        bnd (relative_transforms G ?J) (\<lambda>rel.
        bnd (skinning (weights self) rel vp trns) (\<lambda>vertices. Inr (vertices, faces self)))"
    by blast
  note d = shapes_dims[OF ok]
  from ok have w: "rows (weights self) = V" "cols (weights self) = 24"
    by (simp_all add: shapes_ok_def)
  have rel: "relative_transforms G ?J = Inr (mk3 24 4 4 (rel_entry G ?J))"
    using s(8,7) d(4,5) by (rule relative_transforms_value)
  have sk: "skinning (weights self) (mk3 24 4 4 (rel_entry G ?J)) vp trns =
      Inr (mk2 (rows (weights self)) 3 (skin_entry (weights self) (mk3 24 4 4 (rel_entry G ?J)) vp trns))"
    using w s(4,5) t3 by (intro skinning_value) simp_all
  have fw': "forward self beta pose trns simplify noise =
        Inr (mk2 V 3 (skin_entry (weights self) (mk3 24 4 4 (rel_entry G ?J)) vp trns), faces self)"
    unfolding fw by (simp only: rel sk bnd_Inr w)
  show ?thesis
    apply (rule exI[of _ par], rule exI[of _ vp], rule exI[of _ G])
    apply (intro conjI)
    apply (fact s fw')+
    done
qed

lemma forward_not24_consistent:
  assumes ok: "shapes_ok self beta pose simplify V K" and tp: "topological (kintree_table self)"
    and K: "K \<noteq> 24"
  shows "forward self beta pose trns simplify noise = Inl RuntimeError"
proof -
  from consistent_stages[OF ok tp, where noise=noise and trns=trns] obtain vp G where
    fw: "forward self beta pose trns simplify noise =
        bnd (relative_transforms G (joints_of self beta)) (\<lambda>rel.
        bnd (skinning (weights self) rel vp trns) (\<lambda>vertices. Inr (vertices, faces self)))"
    by blast
  from shapes_dims(4)[OF ok] K have "rows (joints_of self beta) \<noteq> 24" by simp
  then show ?thesis unfolding fw by (simp add: relative_transforms_not24)
qed

subsection \<open>The examples\<close>

lemma ex_fields [simp]:
  "p_J_regressor ex_params = mk2 24 2 zero2" "p_weights ex_params = mk2 2 24 ex_weight"
  "p_posedirs ex_params = mk3 2 3 207 zero3" "p_kintree_table ex_params = smpl_kintree"
  "p_f ex_params = [[0, 1, 1]]"
  by (simp_all add: ex_params_def)

lemma ex23_fields [simp]:
  "p_J_regressor ex_params23 = mk2 23 2 zero2" "p_weights ex_params23 = mk2 2 23 ex_weight"
  "p_posedirs ex_params23 = mk3 2 3 198 zero3" "p_kintree_table ex_params23 = take 23 smpl_kintree"
  "p_shapedirs ex_params23 = Tensor3 2 3 2 [1, 0, 0, 1, 0, 0, 0, 0, 1, 1, 2, 0]"
  "p_v_template ex_params23 = Tensor2 2 3 [1, 0, 0, 0, 1, 0]"
  by (simp_all add: ex_params23_def)

lemma ex_shapes_ok: "shapes_ok (SMPL_init ex_params) ex_beta ex_pose simplify 2 24"
  by (simp add: shapes_ok_def ex_beta_def ex_pose_def)

lemma ex23_shapes_ok: "shapes_ok (SMPL_init ex_params23) ex_beta ex_pose23 simplify 2 23"
  by (simp add: shapes_ok_def ex_beta_def ex_pose23_def)

lemma topological_smpl23: "topological (take 23 smpl_kintree)"
proof (rule topological_ident)
  show "\<forall>i<length (take 23 smpl_kintree). snd (take 23 smpl_kintree ! i) = i"
    using smpl_kintree_ids by simp
  have "[0..<24] = [0, 1, 2, 3, 4, 5, 6, 7, 8, 9, 10, 11, 12, 13, 14, 15, 16, 17, 18, 19, 20, 21, 22, 23::nat]"
    by code_simp
  then show "list_all (\<lambda>j. fst (take 23 smpl_kintree ! j) < j) [1..<length (take 23 smpl_kintree)]"
    by (simp add: smpl_kintree_def)
qed

lemma zero_mult_fin: "a \<noteq> NaN \<Longrightarrow> 0 * a = (0::num)"
  by (cases a) (simp_all add: num_consts)

lemma parent_loop_KeyError:
  "\<exists>j\<in>set js. ids (fst (kt ! j)) = None \<Longrightarrow> parent_loop kt ids js d = Inl KeyError"
proof (induction js arbitrary: d)
  case Nil
  then show ?case by simp
next
  case (Cons i js)
  show ?case
  proof (cases "ids (fst (kt ! i))")
    case None
    then show ?thesis by (simp add: lookup_def)
  next
    case (Some c)
    with Cons.prems have "\<exists>j\<in>set js. ids (fst (kt ! j)) = None" by auto
    from Cons.IH[OF this] Some show ?thesis by (simp add: lookup_def)
  qed
qed

lemma forward_KeyError:
  assumes "1 \<le> j" "j < length (kintree_table self)"
    and "id_to_col (kintree_table self) (fst (kintree_table self ! j)) = None"
  shows "forward self beta pose trns simplify noise = Inl KeyError"
proof -
  from assms(1,2) have "j \<in> set [1..<length (kintree_table self)]" by simp
  with assms(3) have "parent_dict (kintree_table self) = Inl KeyError"
    unfolding parent_dict_def by (intro parent_loop_KeyError) blast
  then show ?thesis by (simp add: forward_def)
qed

lemma bnd_Inl_fails: "\<exists>e. x = Inl e \<Longrightarrow> \<exists>e. bnd x g = Inl e"
  by auto

lemma forward_nontopological:
  assumes "1 \<le> j" "j < length (kintree_table self)"
    and "\<forall>p. id_to_col (kintree_table self) (fst (kintree_table self ! j)) = Some p \<longrightarrow> j \<le> p"
  shows "\<exists>e. forward self beta pose trns simplify noise = Inl e"
proof (cases "parent_dict (kintree_table self)")
  case (Inl e)
  then show ?thesis by (simp add: forward_def)
next
  case (Inr par)
  from parent_dict_Inr[OF Inr assms(1,2)] assms(3) have b: "\<forall>p. par j = Some p \<longrightarrow> j \<le> p"
    by simp
  have c: "\<exists>e. chain par R J [1..<length (kintree_table self)] [G0] = Inl e" for R J G0
    using assms(1,2) b by (intro chain_fails[of 1 j]) simp_all
  show ?thesis
    unfolding forward_def Inr bnd_Inr
    apply (rule bnd_fails, rule bnd_fails, rule bnd_fails, rule bnd_fails, rule bnd_fails,
        rule bnd_fails, rule bnd_Inl_fails)
    apply (rule c)
    done
qed

lemma forward_IndexError:
  assumes ok: "shapes_ok self beta pose simplify V K"
    and found: "\<forall>i. 1 \<le> i \<and> i < K \<longrightarrow> id_to_col (kintree_table self) (fst (kintree_table self ! i)) \<noteq> None"
    and before: "\<forall>i. 1 \<le> i \<and> i < j \<longrightarrow>
       (\<exists>p<i. id_to_col (kintree_table self) (fst (kintree_table self ! i)) = Some p)"
    and j: "1 \<le> j" "j < K"
    and bad: "id_to_col (kintree_table self) (fst (kintree_table self ! j)) = Some p" "j \<le> p"
  shows "forward self beta pose trns simplify noise = Inl IndexError"
proof -
  let ?kt = "kintree_table self"
  let ?R = "rot_of pose noise"
  let ?J = "joints_of self beta"
  let ?G0 = "root_of self beta pose noise"
  from ok have K: "length ?kt = K" by (simp add: shapes_ok_def)
  have "\<forall>i\<in>set [1..<length ?kt]. id_to_col ?kt (fst (?kt ! i)) \<noteq> None"
    using found K by simp
  then obtain par where par: "parent_dict ?kt = Inr par"
    unfolding parent_dict_def using parent_loop_total by blast
  have pj: "par i = id_to_col ?kt (fst (?kt ! i))" if "1 \<le> i" "i < K" for i
    using parent_dict_Inr[OF par that(1)] that(2) K by simp
  from forward_prefix[OF ok par, where noise=noise and trns=trns] obtain vp where
    fw: "forward self beta pose trns simplify noise =
        bnd (chain par ?R ?J [1..<K] [?G0])
         (\<lambda>G. bnd (relative_transforms G ?J) (\<lambda>rel.
              bnd (skinning (weights self) rel vp trns) (\<lambda>vertices. Inr (vertices, faces self))))"
    by blast
  note d = shapes_dims[OF ok]
  have pre: "\<forall>i. 1 \<le> i \<and> i < j \<longrightarrow> (\<exists>p<i. par i = Some p)"
    using before pj j(2) by simp
  have "\<exists>G. chain par ?R ?J [1..<j] [?G0] = Inr G \<and> length G = j \<and> take 1 G = [?G0] \<and> all44 G \<and>
     (\<forall>i. 1 \<le> i \<and> i < j \<longrightarrow> G ! i = fk_step ?R ?J (G ! the (par i)) i (the (par i)))"
    using d j pre by (intro chain_value) (simp_all add: all44_def)
  then obtain G where G: "chain par ?R ?J [1..<j] [?G0] = Inr G" "length G = j" by blast
  have "[1..<j + (K - j)] = [1..<j] @ [j..<j + (K - j)]"
    using j(1) by (rule upt_add_eq_append)
  with j have split: "[1..<K] = [1..<j] @ (j # [Suc j..<K])"
    by (simp add: upt_conv_Cons)
  have "par j = Some p" using pj[OF j] bad(1) by simp
  then have "chain par ?R ?J (j # [Suc j..<K]) G = Inl IndexError"
    using G(2) bad(2) by (simp add: lookup_def list_index_def)
  then have "chain par ?R ?J [1..<K] [?G0] = Inl IndexError"
    unfolding split chain_append by (simp only: G(1) bnd_Inr)
  then show ?thesis unfolding fw by simp
qed

lemma upt24:
  "[0..<24] = [0, 1, 2, 3, 4, 5, 6, 7, 8, 9, 10, 11, 12, 13, 14, 15, 16, 17, 18, 19, 20, 21, 22, 23::nat]"
  by code_simp

lemma upt1_24:
  "[Suc 0..<24] = [1, 2, 3, 4, 5, 6, 7, 8, 9, 10, 11, 12, 13, 14, 15, 16, 17, 18, 19, 20, 21, 22, 23::nat]"
  by code_simp

lemma shuffled_facts:
  "length shuffled_kintree = 24" "\<forall>i<length shuffled_kintree. snd (shuffled_kintree ! i) = i"
  by (simp_all add: shuffled_kintree_def)

lemma shuffled_1: "fst (shuffled_kintree ! Suc 0) = 2"
  by (simp add: shuffled_kintree_def upt24)

lemma orphan_facts:
  "length orphan_kintree = 24" "\<forall>i<length orphan_kintree. snd (orphan_kintree ! i) = i"
  by (simp_all add: orphan_kintree_def)

lemma orphan_5: "fst (orphan_kintree ! 5) = 99"
  by (simp add: orphan_kintree_def upt24)

lemma shuffled_found:
  "\<forall>i. 1 \<le> i \<and> i < 24 \<longrightarrow> id_to_col shuffled_kintree (fst (shuffled_kintree ! i)) \<noteq> None"
proof -
  have "list_all (\<lambda>i. fst (shuffled_kintree ! i) < 24) [1..<24]"
    by (simp add: shuffled_kintree_def upt24 upt1_24)
  then show ?thesis
    by (simp add: id_to_col_ident[OF shuffled_facts(2)] shuffled_facts(1) list_all_iff)
qed

lemma ex_shuffled_fields [simp]:
  "p_J_regressor ex_params_shuffled = mk2 24 2 zero2" "p_weights ex_params_shuffled = mk2 2 24 ex_weight"
  "p_posedirs ex_params_shuffled = mk3 2 3 207 zero3" "p_kintree_table ex_params_shuffled = shuffled_kintree"
  "p_shapedirs ex_params_shuffled = Tensor3 2 3 2 [1, 0, 0, 1, 0, 0, 0, 0, 1, 1, 2, 0]"
  "p_v_template ex_params_shuffled = Tensor2 2 3 [1, 0, 0, 0, 1, 0]"
  by (simp_all add: ex_params_shuffled_def)

lemma ex_shuffled_shapes_ok:
  "shapes_ok (SMPL_init ex_params_shuffled) ex_beta ex_pose simplify 2 24"
  by (simp add: shapes_ok_def ex_beta_def ex_pose_def shuffled_facts)

lemma shaped_of_fin:
  assumes "fin3 (shapedirs self)" "fin2 (v_template self)" "\<forall>s<length beta. beta ! s \<noteq> NaN"
    and "d1 (shapedirs self) = 3" "d2 (shapedirs self) = length beta"
    and "rows (v_template self) = d0 (shapedirs self)" "cols (v_template self) = 3"
  shows "fin2 (shaped_of self beta)"
  unfolding shaped_of_def fin2_mk2
proof (intro allI impI)
  fix i j :: nat assume ij: "i < d0 (shapedirs self)" "j < 3"
  have "(\<Sum>s<length beta. at3 (shapedirs self) i j s * beta ! s) \<noteq> NaN"
    using ij assms by (intro fin_sum fin_ops) (auto simp: fin3_def)
  moreover have "at2 (v_template self) i j \<noteq> NaN"
    using ij assms by (simp add: fin2_def)
  ultimately show "(\<Sum>s<length beta. at3 (shapedirs self) i j s * beta ! s) + at2 (v_template self) i j \<noteq> NaN"
    by (rule fin_ops)
qed

lemma joints_of_fin:
  assumes "fin2 (J_regressor self)" "fin2 (shaped_of self beta)"
    and "cols (J_regressor self) = d0 (shapedirs self)"
  shows "fin2 (joints_of self beta)"
  unfolding joints_of_def fin2_mk2
proof (intro allI impI)
  fix i j :: nat assume ij: "i < rows (J_regressor self)" "j < 3"
  have c: "rows (shaped_of self beta) = d0 (shapedirs self)" "cols (shaped_of self beta) = 3"
    by (simp_all add: shaped_of_def)
  show "(\<Sum>l<cols (J_regressor self). at2 (J_regressor self) i l * at2 (shaped_of self beta) l j) \<noteq> NaN"
    using ij assms c by (intro fin_sum fin_ops) (auto simp: fin2_def)
qed

lemma forward_finite:
  assumes ok: "shapes_ok self beta pose simplify V 24" and tp: "topological (kintree_table self)"
    and t3: "length trns = 3"
    and fs: "fin3 (shapedirs self)" "fin2 (v_template self)" "fin2 (J_regressor self)"
      "fin2 (weights self)" "fin3 (posedirs self)"
    and fb: "\<forall>s<length beta. beta ! s \<noteq> NaN" and ft: "\<forall>c<3. trns ! c \<noteq> NaN"
    and fR: "fin3 (rot_of pose noise)"
  shows "\<exists>out. forward self beta pose trns simplify noise = Inr (out, faces self) \<and>
     rows out = V \<and> cols out = 3 \<and> fin2 out"
proof -
  let ?J = "joints_of self beta"
  let ?R = "rot_of pose noise"
  from forward_value[OF ok tp t3, where noise=noise] obtain par vp G where
    s: "\<forall>j. 1 \<le> j \<and> j < 24 \<longrightarrow> (\<exists>p<j. par j = Some p)"
      "rows vp = V" "cols vp = 3"
      "fin2 (shaped_of self beta) \<longrightarrow> fin3 (posedirs self) \<longrightarrow> fin3 ?R \<longrightarrow> fin2 vp"
      "length G = 24" "all44 G" "G ! 0 = root_of self beta pose noise"
      "\<forall>j. 1 \<le> j \<and> j < 24 \<longrightarrow> G ! j = fk_step ?R ?J (G ! the (par j)) j (the (par j))"
    and fw: "forward self beta pose trns simplify noise =
        Inr (mk2 V 3 (skin_entry (weights self) (mk3 24 4 4 (rel_entry G ?J)) vp trns), faces self)"
    by blast
  from ok have sh: "d0 (shapedirs self) = V" "d1 (shapedirs self) = 3" "d2 (shapedirs self) = length beta"
    "rows (v_template self) = V" "cols (v_template self) = 3" "cols (J_regressor self) = V"
    "rows (weights self) = V" "cols (weights self) = 24"
    by (simp_all add: shapes_ok_def)
  note d = shapes_dims[OF ok]
  have fvs: "fin2 (shaped_of self beta)"
    using fs fb sh by (intro shaped_of_fin) simp_all
  have fJ: "fin2 ?J"
    using fs fvs sh by (intro joints_of_fin) simp_all
  have fvp: "fin2 vp" using s(4) fvs fs(5) fR by simp
  have fG: "fin2 (G ! j)" if "j < 24" for j
    using s(5,6) s(7)[unfolded root_of_def] s(8) s(1) fR d(1-3) fJ d(4,5) that
    by (rule chain_fin)
  have frel: "at3 (mk3 24 4 4 (rel_entry G ?J)) j c l \<noteq> NaN" if "j < 24" "c < 3" "l < 4" for j c l
  proof -
    have "rel_entry G ?J j c l \<noteq> NaN"
      using fG[OF that(1)] all44_nth[OF s(6), of j] s(5) that fJ d(4,5)
      by (intro rel_entry_fin) (simp_all add: fin2_def)
    with that show ?thesis by simp
  qed
  have "fin2 (mk2 V 3 (skin_entry (weights self) (mk3 24 4 4 (rel_entry G ?J)) vp trns))"
    unfolding fin2_mk2
  proof (intro allI impI)
    fix v c :: nat assume vc: "v < V" "c < 3"
    show "skin_entry (weights self) (mk3 24 4 4 (rel_entry G ?J)) vp trns v c \<noteq> NaN"
      using vc fs(4) sh(7,8) frel fvp s(2,3) ft
      by (intro skin_entry_fin) (simp_all add: fin2_def)
  qed
  with fw show ?thesis by simp
qed

lemma ex_pose_at [simp]: "i < 24 \<Longrightarrow> l < 3 \<Longrightarrow> at2 ex_pose i l = 0"
  by (simp add: ex_pose_def zero2_def num_consts)

lemma ex_pose_dims [simp]: "rows ex_pose = 24" "cols ex_pose = 3"
  by (simp_all add: ex_pose_def)

lemma ex_rot_fin: "fin3 (rot_of ex_pose tiny_noise)"
  unfolding rot_of_def fin3_mk3
proof (intro allI impI)
  fix i x y :: nat assume "i < rows ex_pose" "x < 3" "y < 3"
  then show "rod_entry (at2 ex_pose i) (tiny_noise i 0) x y \<noteq> NaN"
    by (intro rod_entry_finite[where a=0 and b=0 and c=0])
      (simp_all add: num_consts tiny_noise_def)
qed

lemma ex_run_noise:
  "\<exists>out. forward (SMPL_init ex_params) ex_beta ex_pose ex_trans False tiny_noise = Inr (out, [[0, 1, 1]])
     \<and> at2 out 0 0 \<noteq> NaN"
proof -
  have "\<exists>out. forward (SMPL_init ex_params) ex_beta ex_pose ex_trans False tiny_noise
        = Inr (out, faces (SMPL_init ex_params)) \<and> rows out = 2 \<and> cols out = 3 \<and> fin2 out"
    using ex_shapes_ok[of False] topological_smpl ex_rot_fin
    by (intro forward_finite) (simp_all add: ex_trans_def ex_beta_def num_consts nth_Cons')
  then show ?thesis by (auto simp: fin2_def)
qed

lemma ex_run_no_noise:
  "\<exists>out. forward (SMPL_init ex_params) ex_beta ex_pose ex_trans False no_noise = Inr (out, [[0, 1, 1]])
     \<and> at2 out 0 0 = NaN"
proof -
  let ?self = "SMPL_init ex_params"
  let ?J = "joints_of ?self ex_beta"
  have t3: "length ex_trans = 3" by (simp add: ex_trans_def)
  have tp: "topological (kintree_table ?self)" using topological_smpl by simp
  from forward_value[OF ex_shapes_ok[of False] tp t3, where noise=no_noise] obtain vp G where
    G0: "G ! 0 = root_of ?self ex_beta ex_pose no_noise"
    and fw: "forward ?self ex_beta ex_pose ex_trans False no_noise =
        Inr (mk2 2 3 (skin_entry (weights ?self) (mk3 24 4 4 (rel_entry G ?J)) vp ex_trans), faces ?self)"
    by blast
  have "at3 (rot_of ex_pose no_noise) 0 0 0 = NaN"
    by (simp add: rot_of_def) (rule rod_entry_zero_NaN, simp_all add: no_noise_def)
  then have "at2 (G ! 0) 0 0 = NaN"
    by (simp add: G0 root_of_def homog_def)
  then have "at3 (mk3 24 4 4 (rel_entry G ?J)) 0 0 0 = NaN"
    by (simp add: rel_entry_def)
  then have "skin_entry (weights ?self) (mk3 24 4 4 (rel_entry G ?J)) vp ex_trans 0 0 = NaN"
    by (intro skin_entry_NaN[where j=0 and l=0]) simp_all
  then have "at2 (mk2 2 3 (skin_entry (weights ?self) (mk3 24 4 4 (rel_entry G ?J)) vp ex_trans)) 0 0 = NaN"
    by simp
  with fw show ?thesis by simp
qed

section \<open>The claims\<close>

subsection \<open>C1: determinism\<close>

text \<open>
  Claim C1 as written fails: with the example parameters, zero shape, zero pose and zero
  translation, an evaluation whose draw is zero returns \<open>NaN\<close> vertices and an
  evaluation whose draw is \<open>1e-8\<close> returns finite ones.
\<close>

theorem forward_not_deterministic_counterexample:
  "forward (SMPL_init ex_params) ex_beta ex_pose ex_trans False no_noise \<noteq>
   forward (SMPL_init ex_params) ex_beta ex_pose ex_trans False tiny_noise"
  using ex_run_noise ex_run_no_noise by auto

text \<open>
  Claim C1, amended: the result of \<open>forward\<close> is determined by the parameters, the
  inputs and the numbers that \<open>_rodrigues\<close> draws for the entries of the pose: two
  evaluations with identical inputs and the same draw return the same vertices and the
  same faces (or raise the same exception).
\<close>

theorem forward_determined_by_draw:
  assumes "\<forall>i<rows pose * cols pose div 3. \<forall>l<3. noise i 0 l = noise' i 0 l"
  shows "forward self beta pose trns simplify noise = forward self beta pose trns simplify noise'"
proof (cases "view_m1_1_3 pose")
  case (Inl e)
  then show ?thesis by (simp add: forward_def bnd_def split: sum.splits)
next
  case (Inr r)
  then have "d0 r = rows pose * cols pose div 3" "d1 r = 1" "d2 r = 3"
    by (auto simp: view_m1_1_3_def split: if_splits)
  with assms have "rodrigues r noise = rodrigues r noise'"
    by (intro rodrigues_cong) auto
  with Inr show ?thesis by (simp add: forward_def bnd_def split: sum.splits)
qed

theorem forward_determined_by_draw_witness:
  "far_noise 24 0 0 \<noteq> tiny_noise 24 0 0 \<and>
   forward (SMPL_init ex_params) ex_beta ex_pose ex_trans False far_noise =
   forward (SMPL_init ex_params) ex_beta ex_pose ex_trans False tiny_noise"
proof -
  have "\<forall>i<rows ex_pose * cols ex_pose div 3. \<forall>l<3. far_noise i 0 l = tiny_noise i 0 l"
    by (simp add: far_noise_def)
  from forward_determined_by_draw[where pose=ex_pose and noise=far_noise and noise'=tiny_noise, OF this]
  show ?thesis
    by (simp add: far_noise_def tiny_noise_def)
qed

subsection \<open>C2: a zero axis-angle vector\<close>

text \<open>
  Claim C2 as written fails: for the zero vector and a draw that is zero as well, the
  angle is 0, the axis is \<open>0 / 0\<close>, and every entry of the matrix is \<open>NaN\<close>, not the
  identity.
\<close>

theorem rodrigues_zero_angle_counterexample:
  "rodrigues zero_r no_noise = Inr (Tensor3 1 3 3 [NaN, NaN, NaN, NaN, NaN, NaN, NaN, NaN, NaN])"
proof -
  have "rodrigues zero_r no_noise = Inr (mk3 1 3 3 (\<lambda>i. rod_entry (at3 zero_r i 0) (no_noise i 0)))"
    using rodrigues_value[of zero_r no_noise] by (simp add: zero_r_def)
  also have "mk3 1 3 3 (\<lambda>i. rod_entry (at3 zero_r i 0) (no_noise i 0)) = mk3 1 3 3 (\<lambda>i x y. NaN)"
  proof (rule mk3_cong)
    fix i j l :: nat assume "i < 1"
    then show "rod_entry (at3 zero_r i 0) (no_noise i 0) j l = NaN"
      by (intro rod_entry_zero_NaN) (simp_all add: zero_r_def at3_Tensor3 no_noise_def)
  qed
  also have "\<dots> = Tensor3 1 3 3 [NaN, NaN, NaN, NaN, NaN, NaN, NaN, NaN, NaN]"
    by (simp add: mk3_def upt9)
  finally show ?thesis .
qed

text \<open>
  Claim C2, amended: for a batch of zero axis-angle vectors \<open>_rodrigues\<close> succeeds, and
  row \<open>i\<close> of its result is computed from the draw \<open>eps\<close> for that row. With
  \<open>th\<close> the norm of the draw, the row is \<open>cos th\<close> times the identity when
  \<open>th\<close> is not 0, each entry within \<open>th\<^sup>2 / 2\<close> of the identity's, and it is \<open>NaN\<close>
  in every entry when \<open>th = 0\<close>.
\<close>

theorem rodrigues_zero_angle:
  assumes "d1 r = 1" "d2 r = 3" "\<forall>i<d0 r. \<forall>l<3. at3 r i 0 l = 0"
  shows "\<exists>R. rodrigues r noise = Inr R \<and> d0 R = d0 r \<and> d1 R = 3 \<and> d2 R = 3 \<and>
    (\<forall>i<d0 r. \<forall>x<3. \<forall>y<3.
       let th = sqrt ((noise i 0 0)\<^sup>2 + (noise i 0 1)\<^sup>2 + (noise i 0 2)\<^sup>2);
           idn = (if x = y then 1 else 0)
       in (th = 0 \<longrightarrow> at3 R i x y = NaN) \<and>
          (th \<noteq> 0 \<longrightarrow> at3 R i x y = Fin (cos th * idn) \<and> \<bar>cos th * idn - idn\<bar> \<le> th\<^sup>2 / 2))"
  using assms
  apply (simp add: rodrigues_def Let_def sum3 num_consts power2_eq_square)
  apply (intro allI impI conjI)
  apply (auto simp: nth_Cons' num_consts power2_eq_square cos_sqrt_bound)
  done

theorem rodrigues_zero_angle_witness:
  "\<exists>R. rodrigues zero_r tiny_noise = Inr R \<and> at3 R 0 0 0 = Fin (cos (1 / 10 ^ 8)) \<and>
       at3 R 0 0 1 = Fin 0 \<and> \<bar>cos (1 / 10 ^ 8) - 1\<bar> \<le> (1 / 10 ^ 8)\<^sup>2 / (2::real)"
proof -
  have h: "d1 zero_r = 1" "d2 zero_r = 3" "\<forall>i<d0 zero_r. \<forall>l<3. at3 zero_r i 0 l = 0"
    by (auto simp: zero_r_def at3_Tensor3 nth_Cons')
  have th: "tiny_noise 0 0 0 = 1 / 10 ^ 8" "tiny_noise 0 0 (Suc 0) = 0" "tiny_noise 0 0 2 = 0"
    by (simp_all add: tiny_noise_def)
  from rodrigues_zero_angle[OF h, of tiny_noise] obtain R where
    R: "rodrigues zero_r tiny_noise = Inr R"
    and e: "\<forall>i<d0 zero_r. \<forall>x<3. \<forall>y<3.
       let th = sqrt ((tiny_noise i 0 0)\<^sup>2 + (tiny_noise i 0 1)\<^sup>2 + (tiny_noise i 0 2)\<^sup>2);
           idn = (if x = y then 1 else 0)
       in (th = 0 \<longrightarrow> at3 R i x y = NaN) \<and>
          (th \<noteq> 0 \<longrightarrow> at3 R i x y = Fin (cos th * idn) \<and> \<bar>cos th * idn - idn\<bar> \<le> th\<^sup>2 / 2)"
    by blast
  have z: "(0::nat) < d0 zero_r" by (simp add: zero_r_def)
  from e[rule_format, OF z, of 0 0] e[rule_format, OF z, of 0 1] R show ?thesis
    by (simp add: th Let_def)
qed

subsection \<open>C3: the shaped vertices\<close>

text \<open>
  Claim C3: for parameters of consistent sizes (\<open>V\<close> vertices, as many shape
  components as coefficients), line 132 succeeds with \<open>V\<close> rows of 3 numbers, row
  \<open>v\<close> being the template vertex plus the sum over \<open>s\<close> of
  \<open>shapedirs[v, :, s] * beta[s]\<close>; with all coefficients zero the result is the
  template tensor itself.
\<close>

theorem shape_blend_correct:
  assumes "d0 (p_shapedirs p) = V" "d1 (p_shapedirs p) = 3" "d2 (p_shapedirs p) = length beta"
    and "rows (p_v_template p) = V" "cols (p_v_template p) = 3"
  shows "\<exists>vs. v_shaped (SMPL_init p) (map Fin beta) = Inr vs \<and> rows vs = V \<and> cols vs = 3 \<and>
     (\<forall>v<V. \<forall>c<3. at2 vs v c =
        Fin (at2 (p_v_template p) v c + (\<Sum>s<length beta. at3 (p_shapedirs p) v c s * beta ! s))) \<and>
     ((\<forall>s<length beta. beta ! s = 0) \<longrightarrow> vs = v_template (SMPL_init p))"
proof -
  let ?vs = "mk2 V 3 (\<lambda>v c. (\<Sum>s<length (map Fin beta).
                 at3 (shapedirs (SMPL_init p)) v c s * map Fin beta ! s)
               + at2 (v_template (SMPL_init p)) v c)"
  have val: "v_shaped (SMPL_init p) (map Fin beta) = Inr ?vs"
    using assms by (intro v_shaped_value) simp_all
  have entry: "at2 ?vs v c =
      Fin (at2 (p_v_template p) v c + (\<Sum>s<length beta. at3 (p_shapedirs p) v c s * beta ! s))"
    if "v < V" "c < 3" for v c
    using that assms by (simp add: sum_Fin add.commute)
  have zero: "?vs = v_template (SMPL_init p)" if z: "\<forall>s<length beta. beta ! s = 0"
  proof -
    have "?vs = mk2 V 3 (\<lambda>v c. Fin (at2 (p_v_template p) v c))"
      using assms z by (intro mk2_cong) (simp add: sum_Fin)
    then show ?thesis using assms by (simp add: float2_def)
  qed
  show ?thesis using val entry zero by auto
qed

theorem shape_blend_correct_witness:
  "v_shaped (SMPL_init ex_params) (map Fin [0, 0]) = Inr (v_template (SMPL_init ex_params))"
  using shape_blend_correct[of ex_params 2 "[0, 0]"]
  by (auto simp: ex_params_def less_Suc_eq numeral_2_eq_2)

subsection \<open>C4: \<open>simplify\<close>\<close>

text \<open>
  Claim C4: with \<open>simplify\<close> set, the posed vertices are the shaped vertices,
  whatever the rotations are, and the result of \<open>forward\<close> does not depend on the
  pose-corrective basis.
\<close>

theorem simplify_skips_pose_blend:
  "v_posed self R_cube_big vs True = Inr vs \<and>
   forward (self\<lparr>posedirs := pd\<rparr>) beta pose trns True noise = forward self beta pose trns True noise"
  by (simp add: v_posed_def forward_def v_shaped_def)

subsection \<open>C5: forward kinematics\<close>

text \<open>
  Claim C5: for 24 rotations, 24 joint rest positions and a tree in which every joint
  after the root has a parent of smaller index, lines 148 to 177 succeed. The sweep
  builds \<open>G[0] = [R[0] | J[0]]\<close> and, joint by joint in ascending order,
  \<open>G[j] = G[parent j] \<cdot> [R[j] | J[j] - J[parent j]]\<close>; the relative transforms are
  \<open>T[j] = G[j] - pack (G[j] \<cdot> [J[j]; 0])\<close>.
\<close>

theorem forward_kinematics_correct:
  assumes "d0 R = 24" "d1 R = 3" "d2 R = 3" "rows J = 24" "cols J = 3"
    and "\<forall>j. 1 \<le> j \<and> j < 24 \<longrightarrow> (\<exists>p<j. par j = Some p)"
  shows "\<exists>G0 G T. root_transform R J = Inr G0 \<and> chain par R J [1..<24] [G0] = Inr G \<and>
     relative_transforms G J = Inr T \<and>
     length G = 24 \<and> d0 T = 24 \<and> d1 T = 4 \<and> d2 T = 4 \<and>
     (\<forall>a<4. \<forall>b<4. at2 (G ! 0) a b = homog (at3 R 0) (at2 J 0) a b) \<and>
     (\<forall>j. 1 \<le> j \<and> j < 24 \<longrightarrow> (\<forall>a<4. \<forall>b<4. at2 (G ! j) a b =
         (\<Sum>l<4. at2 (G ! the (par j)) a l *
                  homog (at3 R j) (\<lambda>c. at2 J j c - at2 J (the (par j)) c) l b))) \<and>
     (\<forall>j<24. \<forall>a<4. \<forall>b<4. at3 T j a b =
         at2 (G ! j) a b - packed (\<lambda>a. \<Sum>l<4. at2 (G ! j) a l * rest4 J j l) a b)"
proof -
  let ?G0 = "mk2 4 4 (homog (at3 R 0) (at2 J 0))"
  have G0: "root_transform R J = Inr ?G0"
    using assms by (intro root_transform_value) simp_all
  have "\<exists>G. chain par R J [1..<24] [?G0] = Inr G \<and> length G = 24 \<and> take 1 G = [?G0] \<and> all44 G \<and>
     (\<forall>j. 1 \<le> j \<and> j < 24 \<longrightarrow> G ! j = fk_step R J (G ! the (par j)) j (the (par j)))"
    using assms by (intro chain_value) (simp_all add: all44_def)
  then obtain G where G: "chain par R J [1..<24] [?G0] = Inr G" "length G = 24" "take 1 G = [?G0]"
      "all44 G" "\<forall>j. 1 \<le> j \<and> j < 24 \<longrightarrow> G ! j = fk_step R J (G ! the (par j)) j (the (par j))"
    by blast
  have "take 1 G ! 0 = G ! 0" by (simp del: take_Suc)
  with G(3) have G0': "G ! 0 = ?G0" by simp
  have T: "relative_transforms G J = Inr (mk3 24 4 4 (rel_entry G J))"
    using G(4,2) assms(4,5) by (rule relative_transforms_value)
  have e0: "\<forall>a<4. \<forall>b<4. at2 (G ! 0) a b = homog (at3 R 0) (at2 J 0) a b"
    by (simp add: G0')
  have ej: "\<forall>j. 1 \<le> j \<and> j < 24 \<longrightarrow> (\<forall>a<4. \<forall>b<4. at2 (G ! j) a b =
         (\<Sum>l<4. at2 (G ! the (par j)) a l *
                  homog (at3 R j) (\<lambda>c. at2 J j c - at2 J (the (par j)) c) l b))"
  proof (intro allI impI)
    fix j a b :: nat assume "1 \<le> j \<and> j < 24" "a < 4" "b < 4"
    with G(5) show "at2 (G ! j) a b =
         (\<Sum>l<4. at2 (G ! the (par j)) a l *
                  homog (at3 R j) (\<lambda>c. at2 J j c - at2 J (the (par j)) c) l b)"
      by (simp add: fk_step_def)
  qed
  have eT: "\<forall>j<24. \<forall>a<4. \<forall>b<4. at3 (mk3 24 4 4 (rel_entry G J)) j a b =
         at2 (G ! j) a b - packed (\<lambda>a. \<Sum>l<4. at2 (G ! j) a l * rest4 J j l) a b"
    by (simp add: rel_entry_def packed_def rest4_def)
  show ?thesis
    apply (rule exI[of _ ?G0], rule exI[of _ G], rule exI[of _ "mk3 24 4 4 (rel_entry G J)"])
    apply (intro conjI)
    apply (fact G0 G T e0 ej eT | simp)+
    done
qed

theorem forward_kinematics_correct_witness:
  "\<exists>G0 G T. root_transform ex_R ex_J = Inr G0 \<and>
     chain chain_par ex_R ex_J [1..<24] [G0] = Inr G \<and>
     relative_transforms G ex_J = Inr T \<and> length G = 24 \<and> d0 T = 24"
proof -
  have p: "\<forall>j. 1 \<le> j \<and> j < 24 \<longrightarrow> (\<exists>p<j. chain_par j = Some p)"
    by (simp add: chain_par_def)
  have d: "d0 ex_R = 24" "d1 ex_R = 3" "d2 ex_R = 3" "rows ex_J = 24" "cols ex_J = 3"
    by (simp_all add: ex_R_def rot_of_def ex_pose_def ex_J_def)
  from forward_kinematics_correct[OF d p] show ?thesis by blast
qed

subsection \<open>C6: linear blend skinning\<close>

text \<open>
  Claim C6: for weights, transforms and posed vertices of consistent sizes and a
  translation of three numbers, lines 178 to 188 succeed with one row per vertex, in the
  order of the input; row \<open>v\<close> is the first three entries of
  \<open>(\<Sum>j. w[v, j] * T[j]) \<cdot> homogeneous (vp[v])\<close> plus the translation. When all weights
  of a vertex are zero (and the transforms and the vertex are finite numbers), the row
  is the translation.
\<close>

theorem linear_blend_skinning_correct:
  assumes "rows w = V" "cols w = d0 T" "d1 T = 4" "d2 T = 4" "rows vp = V" "cols vp = 3"
    and "length trns = 3"
  shows "\<exists>out. skinning w T vp trns = Inr out \<and> rows out = V \<and> cols out = 3 \<and>
     (\<forall>v<V. \<forall>c<3. at2 out v c =
        (\<Sum>l<4. (\<Sum>j<d0 T. at2 w v j * at3 T j c l) * homogeneous vp v l) + trns ! c) \<and>
     (\<forall>v<V. (\<forall>j<d0 T. at2 w v j = 0) \<longrightarrow> fin3 T \<longrightarrow> (\<forall>l<3. at2 vp v l \<noteq> NaN) \<longrightarrow>
        (\<forall>c<3. at2 out v c = trns ! c))"
proof -
  let ?out = "mk2 (rows w) 3 (skin_entry w T vp trns)"
  have val: "skinning w T vp trns = Inr ?out"
    using assms by (intro skinning_value) simp_all
  have e: "at2 ?out v c = (\<Sum>l<4. (\<Sum>j<d0 T. at2 w v j * at3 T j c l) * homogeneous vp v l) + trns ! c"
    if "v < V" "c < 3" for v c
    using that assms(1) by (simp add: skin_entry_def homogeneous_def)
  have z: "at2 ?out v c = trns ! c"
    if "v < V" "\<forall>j<d0 T. at2 w v j = 0" "fin3 T" "\<forall>l<3. at2 vp v l \<noteq> NaN" "c < 3" for v c
  proof -
    have s: "(\<Sum>j<d0 T. at2 w v j * at3 T j c l) = 0" if "l < 4" for l
    proof -
      have "at2 w v j * at3 T j c l = 0" if "j < d0 T" for j
        using that \<open>l < 4\<close> \<open>c < 3\<close> \<open>fin3 T\<close> \<open>\<forall>j<d0 T. at2 w v j = 0\<close> assms(3,4)
        by (simp add: fin3_def zero_mult_fin)
      then show ?thesis by simp
    qed
    have h: "homogeneous vp v l \<noteq> NaN" for l
      using \<open>\<forall>l<3. at2 vp v l \<noteq> NaN\<close> by (simp add: homogeneous_def fin_ops)
    have "(\<Sum>l<4. (\<Sum>j<d0 T. at2 w v j * at3 T j c l) * homogeneous vp v l) = 0"
      using s h by (simp add: zero_mult_fin)
    with e[OF that(1,5)] show ?thesis by simp
  qed
  show ?thesis
    using val e z assms(1) by (intro exI[of _ ?out]) simp
qed

theorem linear_blend_skinning_correct_witness:
  "\<exists>out. skinning (float2 (p_weights ex_params)) ex_T (float2 (p_v_template ex_params))
            [Fin 1, Fin 2, Fin 3] = Inr out \<and> rows out = 2 \<and> cols out = 3 \<and>
         at2 out 1 0 = Fin 1 \<and> at2 out 1 1 = Fin 2 \<and> at2 out 1 2 = Fin 3"
proof -
  let ?w = "float2 (p_weights ex_params)"
  let ?vp = "float2 (p_v_template ex_params)"
  have d: "rows ?w = 2" "cols ?w = d0 ex_T" "d1 ex_T = 4" "d2 ex_T = 4" "rows ?vp = 2" "cols ?vp = 3"
    "length [Fin 1, Fin 2, Fin 3] = 3"
    by (simp_all add: ex_T_def)
  have w: "\<forall>j<d0 ex_T. at2 ?w 1 j = 0"
    by (simp add: ex_T_def ex_weight_def num_consts)
  have f: "fin3 ex_T" by (simp add: ex_T_def)
  have v: "\<forall>l<3. at2 ?vp 1 l \<noteq> NaN" by simp
  from linear_blend_skinning_correct[OF d] obtain out where
    o: "skinning ?w ex_T ?vp [Fin 1, Fin 2, Fin 3] = Inr out" "rows out = 2" "cols out = 3"
    and z: "\<forall>v<2. (\<forall>j<d0 ex_T. at2 ?w v j = 0) \<longrightarrow> fin3 ex_T \<longrightarrow> (\<forall>l<3. at2 ?vp v l \<noteq> NaN) \<longrightarrow>
        (\<forall>c<3. at2 out v c = [Fin 1, Fin 2, Fin 3] ! c)"
    by blast
  from z w f v have "\<forall>c<3. at2 out 1 c = [Fin 1, Fin 2, Fin 3] ! c" by simp
  then have "at2 out 1 0 = Fin 1" "at2 out 1 1 = Fin 2" "at2 out 1 2 = Fin 3" by simp_all
  with o show ?thesis by blast
qed

subsection \<open>C7: a kinematic tree that is not in topological order\<close>

text \<open>
  Claim C7 as written fails: the example with joints 1 and 2 exchanged is not rejected
  when the module is built, and no error of the name \<open>InvalidTopologyError\<close> exists;
  \<open>forward\<close> runs until the sweep reads \<open>results[parent[1]]\<close> and raises
  \<open>IndexError\<close>.
\<close>

theorem nontopological_tree_counterexample:
  "forward (SMPL_init ex_params_shuffled) ex_beta ex_pose ex_trans False tiny_noise = Inl IndexError"
proof (rule forward_IndexError[OF ex_shuffled_shapes_ok, where j=1 and p=2])
  show "\<forall>i. 1 \<le> i \<and> i < 24 \<longrightarrow>
      id_to_col (kintree_table (SMPL_init ex_params_shuffled))
        (fst (kintree_table (SMPL_init ex_params_shuffled) ! i)) \<noteq> None"
    using shuffled_found by simp
  show "id_to_col (kintree_table (SMPL_init ex_params_shuffled))
      (fst (kintree_table (SMPL_init ex_params_shuffled) ! 1)) = Some 2"
    by (simp add: id_to_col_ident[OF shuffled_facts(2)] shuffled_facts shuffled_1)
qed simp_all

text \<open>
  Claim C7, amended: there is no validation; when some joint after the root has a
  parent whose column index is not smaller than its own (or has no column at all),
  \<open>forward\<close> raises an exception and returns no mesh. The exception is \<open>KeyError\<close>
  (line 131) when the parent identifier belongs to no joint; for inputs of consistent
  sizes whose parents are all found it is \<open>IndexError\<close>, raised by
  \<open>results[parent[j]]\<close> at the first such joint \<open>j\<close>.
\<close>

theorem nontopological_tree_raises:
  "(1 \<le> j \<longrightarrow> j < length (kintree_table self) \<longrightarrow>
      (\<forall>p. id_to_col (kintree_table self) (fst (kintree_table self ! j)) = Some p \<longrightarrow> j \<le> p) \<longrightarrow>
      (\<exists>e. forward self beta pose trns simplify noise = Inl e)) \<and>
   (1 \<le> j \<longrightarrow> j < length (kintree_table self) \<longrightarrow>
      id_to_col (kintree_table self) (fst (kintree_table self ! j)) = None \<longrightarrow>
      forward self beta pose trns simplify noise = Inl KeyError) \<and>
   (shapes_ok self beta pose simplify V K \<longrightarrow>
      (\<forall>i. 1 \<le> i \<and> i < K \<longrightarrow>
         id_to_col (kintree_table self) (fst (kintree_table self ! i)) \<noteq> None) \<longrightarrow>
      (\<forall>i. 1 \<le> i \<and> i < j \<longrightarrow>
         (\<exists>q<i. id_to_col (kintree_table self) (fst (kintree_table self ! i)) = Some q)) \<longrightarrow>
      1 \<le> j \<longrightarrow> j < K \<longrightarrow>
      id_to_col (kintree_table self) (fst (kintree_table self ! j)) = Some p \<longrightarrow> j \<le> p \<longrightarrow>
      forward self beta pose trns simplify noise = Inl IndexError)"
  using forward_nontopological[of j self beta pose trns simplify noise]
    forward_KeyError[of j self beta pose trns simplify noise]
    forward_IndexError[of self beta pose simplify V K j p trns noise]
  by blast

theorem nontopological_tree_raises_witness:
  "isl (forward (SMPL_init ex_params_shuffled) ex_beta ex_pose ex_trans True tiny_noise) \<and>
   forward (SMPL_init ex_params_shuffled) ex_beta ex_pose ex_trans True tiny_noise = Inl IndexError \<and>
   forward (SMPL_init ex_params_orphan) ex_beta ex_pose ex_trans True tiny_noise = Inl KeyError"
proof -
  note T = nontopological_tree_raises
  let ?s = "SMPL_init ex_params_shuffled"
  have k: "kintree_table ?s = shuffled_kintree" by simp
  have i: "id_to_col shuffled_kintree (fst (shuffled_kintree ! 1)) = Some 2"
    by (simp add: id_to_col_ident[OF shuffled_facts(2)] shuffled_facts shuffled_1)
  have 1: "isl (forward ?s ex_beta ex_pose ex_trans True tiny_noise)"
    using T[where self="?s" and j=1 and beta=ex_beta and pose=ex_pose and trns=ex_trans
        and simplify=True and noise=tiny_noise, THEN conjunct1] i
    by (auto simp: shuffled_facts)
  have 2: "forward ?s ex_beta ex_pose ex_trans True tiny_noise = Inl IndexError"
    using T[where self="?s" and j=1 and p=2 and V=2 and K=24 and beta=ex_beta and pose=ex_pose
        and trns=ex_trans and simplify=True and noise=tiny_noise, THEN conjunct2, THEN conjunct2]
      i ex_shuffled_shapes_ok[of True] shuffled_found
    by (simp add: shuffled_facts)
  have o: "p_kintree_table ex_params_orphan = orphan_kintree"
    by (simp add: ex_params_orphan_def)
  have 3: "forward (SMPL_init ex_params_orphan) ex_beta ex_pose ex_trans True tiny_noise = Inl KeyError"
    using T[where self="SMPL_init ex_params_orphan" and j=5 and beta=ex_beta and pose=ex_pose
        and trns=ex_trans and simplify=True and noise=tiny_noise, THEN conjunct2, THEN conjunct1]
    by (simp add: o id_to_col_ident[OF orphan_facts(2)] orphan_facts orphan_5)
  from 1 2 3 show ?thesis by blast
qed

subsection \<open>C8: shape coefficients of the wrong length\<close>

text \<open>
  Claim C8 as written fails: the example has two shape components, and a coefficient
  vector of length 1 is not rejected; \<open>tensordot\<close> broadcasts it, and line 132 returns
  shaped vertices.
\<close>

theorem shape_coeffs_broadcast_counterexample:
  "length [Fin 2] \<noteq> d2 (shapedirs (SMPL_init ex_params)) \<and>
   v_shaped (SMPL_init ex_params) [Fin 2] = Inr (Tensor2 2 3 [Fin 3, Fin 2, Fin 0, Fin 0, Fin 5, Fin 4])"
proof -
  have "v_shaped (SMPL_init ex_params) [Fin 2] =
     Inr (mk2 2 3 (\<lambda>v c. (\<Sum>s<2. at3 (shapedirs (SMPL_init ex_params)) v c s) * Fin 2 +
                       at2 (v_template (SMPL_init ex_params)) v c))"
    by (simp add: v_shaped_def tensordot3x1_def bop2_same)
  also have "mk2 2 3 (\<lambda>v c. (\<Sum>s<2. at3 (shapedirs (SMPL_init ex_params)) v c s) * Fin 2 +
                       at2 (v_template (SMPL_init ex_params)) v c) =
     mk2 2 3 (\<lambda>v c. Fin ((at3 (Tensor3 2 3 2 [1, 0, 0, 1, 0, 0, 0, 0, 1, 1, 2, 0]) v c 0
             + at3 (Tensor3 2 3 2 [1, 0, 0, 1, 0, 0, 0, 0, 1, 1, 2, 0]) v c 1) * 2
             + at2 (Tensor2 2 3 [1, 0, 0, 0, 1, 0]) v c))"
    by (rule mk2_cong) (simp add: sum2)
  also have "\<dots> = Tensor2 2 3 [Fin 3, Fin 2, Fin 0, Fin 0, Fin 5, Fin 4]"
    by (simp add: mk2_def at2_def at3_def upt6)
  finally show ?thesis by simp
qed

text \<open>
  Claim C8, amended: when the number of coefficients differs from the number \<open>S\<close> of
  shape components and neither is 1, line 132 raises torch's \<open>RuntimeError\<close> (there
  is no error type of its own for a size mismatch), and so does \<open>forward\<close> once the
  two dictionaries of lines 130 and 131 are built. A single coefficient multiplies the
  sum of the \<open>S\<close> components, and with \<open>S = 1\<close> the sum of the coefficients
  multiplies the one component: both are broadcast, not rejected.
\<close>

theorem shape_coeffs_mismatch:
  "(d2 (shapedirs self) \<noteq> length beta \<longrightarrow> length beta \<noteq> 1 \<longrightarrow> d2 (shapedirs self) \<noteq> 1 \<longrightarrow>
      v_shaped self beta = Inl RuntimeError \<and>
      (\<forall>par. parent_dict (kintree_table self) = Inr par \<longrightarrow>
         forward self beta pose trns simplify noise = Inl RuntimeError)) \<and>
   (rows (v_template self) = d0 (shapedirs self) \<longrightarrow> cols (v_template self) = d1 (shapedirs self) \<longrightarrow>
      (length beta = 1 \<longrightarrow>
         v_shaped self beta =
           Inr (mk2 (d0 (shapedirs self)) (d1 (shapedirs self))
                 (\<lambda>v c. (\<Sum>s<d2 (shapedirs self). at3 (shapedirs self) v c s) * beta ! 0
                        + at2 (v_template self) v c))) \<and>
      (d2 (shapedirs self) = 1 \<longrightarrow> length beta \<noteq> 1 \<longrightarrow>
         v_shaped self beta =
           Inr (mk2 (d0 (shapedirs self)) (d1 (shapedirs self))
                 (\<lambda>v c. at3 (shapedirs self) v c 0 * (\<Sum>s<length beta. beta ! s)
                        + at2 (v_template self) v c))))"
proof (intro conjI impI allI)
  assume "d2 (shapedirs self) \<noteq> length beta" "length beta \<noteq> 1" "d2 (shapedirs self) \<noteq> 1"
  then show a: "v_shaped self beta = Inl RuntimeError"
    by (simp add: v_shaped_def tensordot3x1_mismatch)
  fix par assume "parent_dict (kintree_table self) = Inr par"
  with a show "forward self beta pose trns simplify noise = Inl RuntimeError"
    by (simp add: forward_def)
next
  assume "rows (v_template self) = d0 (shapedirs self)" "cols (v_template self) = d1 (shapedirs self)"
    "length beta = 1"
  then show "v_shaped self beta =
           Inr (mk2 (d0 (shapedirs self)) (d1 (shapedirs self))
                 (\<lambda>v c. (\<Sum>s<d2 (shapedirs self). at3 (shapedirs self) v c s) * beta ! 0
                        + at2 (v_template self) v c))"
    by (simp add: v_shaped_def tensordot3x1_def bop2_same)
next
  assume "rows (v_template self) = d0 (shapedirs self)" "cols (v_template self) = d1 (shapedirs self)"
    "d2 (shapedirs self) = 1" "length beta \<noteq> 1"
  then show "v_shaped self beta =
           Inr (mk2 (d0 (shapedirs self)) (d1 (shapedirs self))
                 (\<lambda>v c. at3 (shapedirs self) v c 0 * (\<Sum>s<length beta. beta ! s)
                        + at2 (v_template self) v c))"
    by (simp add: v_shaped_def tensordot3x1_def bop2_same)
qed

theorem shape_coeffs_mismatch_witness:
  "v_shaped (SMPL_init ex_params) [Fin 1, Fin 2, Fin 3] = Inl RuntimeError \<and>
   \<not> isl (v_shaped (SMPL_init ex_params) [Fin 2]) \<and>
   \<not> isl (v_shaped (SMPL_init ex_params_s1) [Fin 1, Fin 2, Fin 3])"
  using shape_coeffs_mismatch[of "SMPL_init ex_params" "[Fin 1, Fin 2, Fin 3]"]
    shape_coeffs_mismatch[of "SMPL_init ex_params" "[Fin 2]"]
    shape_coeffs_mismatch[of "SMPL_init ex_params_s1" "[Fin 1, Fin 2, Fin 3]"]
  by simp

subsection \<open>C9: the translation\<close>

text \<open>
  Claim C9: for all parameters, shape and pose, and for one and the same draw in the
  two evaluations, \<open>forward\<close> with translation
  \<open>(1, 0, 0)\<close> fails exactly when it fails with translation \<open>(0, 0, 0)\<close>, and
  otherwise returns the same faces and, entry by entry, the vertices of the latter plus
  \<open>(1, 0, 0)\<close>.
\<close>

theorem translation_equivariance:
  "forward self beta pose [Fin 1, 0, 0] simplify noise =
     (case forward self beta pose [0, 0, 0] simplify noise of
        Inl e \<Rightarrow> Inl e
      | Inr (vs, fc) \<Rightarrow> Inr (mk2 (rows vs) (cols vs) (\<lambda>v c. at2 vs v c + [Fin 1, 0, 0] ! c), fc))"
  by (simp add: forward_def skinning_shift bnd_def split: sum.splits)

subsection \<open>C10: the joint count 24\<close>

text \<open>
  Claim C10: lines 165 to 177 fail with torch's \<open>RuntimeError\<close> whenever the joint
  positions do not have 24 rows, and succeed for 24 rows of 3 and 24 transforms of size
  \<open>4 \<times> 4\<close>. So \<open>forward\<close> returns no mesh when the regressor has a number of rows
  other than 24; for parameters and inputs of consistent sizes with \<open>K\<close> joints in
  topological order it returns \<open>RuntimeError\<close> when \<open>K\<close> is not 24 (every statement
  before line 165 succeeds), and a mesh of \<open>V\<close> vertices when \<open>K = 24\<close>.
\<close>

theorem joint_count_24_hardcoded:
  "(rows J \<noteq> 24 \<longrightarrow> relative_transforms results J = Inl RuntimeError) \<and>
   (rows J = 24 \<longrightarrow> cols J = 3 \<longrightarrow> length results = 24 \<longrightarrow> all44 results \<longrightarrow>
      (\<exists>rel. relative_transforms results J = Inr rel \<and> d0 rel = 24 \<and> d1 rel = 4 \<and> d2 rel = 4)) \<and>
   (rows (J_regressor self) \<noteq> 24 \<longrightarrow> (\<exists>e. forward self beta pose trns simplify noise = Inl e)) \<and>
   (shapes_ok self beta pose simplify V K \<longrightarrow> topological (kintree_table self) \<longrightarrow> K \<noteq> 24 \<longrightarrow>
      forward self beta pose trns simplify noise = Inl RuntimeError) \<and>
   (shapes_ok self beta pose simplify V 24 \<longrightarrow> topological (kintree_table self) \<longrightarrow> length trns = 3 \<longrightarrow>
      (\<exists>vs. forward self beta pose trns simplify noise = Inr (vs, faces self) \<and>
            rows vs = V \<and> cols vs = 3))"
proof (intro conjI impI)
  assume "rows J \<noteq> 24"
  then show "relative_transforms results J = Inl RuntimeError"
    by (rule relative_transforms_not24)
next
  assume "rows J = 24" "cols J = 3" "length results = 24" "all44 results"
  then have "relative_transforms results J = Inr (mk3 24 4 4 (rel_entry results J))"
    by (intro relative_transforms_value)
  then show "\<exists>rel. relative_transforms results J = Inr rel \<and> d0 rel = 24 \<and> d1 rel = 4 \<and> d2 rel = 4"
    by simp
next
  assume "rows (J_regressor self) \<noteq> 24"
  then show "\<exists>e. forward self beta pose trns simplify noise = Inl e"
    by (rule forward_not24)
next
  assume "shapes_ok self beta pose simplify V K" "topological (kintree_table self)" "K \<noteq> 24"
  then show "forward self beta pose trns simplify noise = Inl RuntimeError"
    by (rule forward_not24_consistent)
next
  assume "shapes_ok self beta pose simplify V 24" "topological (kintree_table self)" "length trns = 3"
  from forward_value[OF this, where noise=noise]
  show "\<exists>vs. forward self beta pose trns simplify noise = Inr (vs, faces self) \<and>
            rows vs = V \<and> cols vs = 3"
    by auto
qed

theorem joint_count_24_hardcoded_witness:
  "relative_transforms [] (float2 (mk2 23 3 zero2)) = Inl RuntimeError \<and>
   \<not> isl (relative_transforms (replicate 24 (float2 (mk2 4 4 zero2))) (float2 (mk2 24 3 zero2))) \<and>
   isl (forward (SMPL_init ex_params23) ex_beta ex_pose23 ex_trans False tiny_noise) \<and>
   forward (SMPL_init ex_params23) ex_beta ex_pose23 ex_trans False tiny_noise = Inl RuntimeError \<and>
   \<not> isl (forward (SMPL_init ex_params) ex_beta ex_pose ex_trans False tiny_noise)"
proof -
  note T = joint_count_24_hardcoded
  have a: "all44 (replicate 24 (float2 (mk2 4 4 zero2)))"
    by (simp add: all44_def list_all_iff)
  have t: "length ex_trans = 3" by (simp add: ex_trans_def)
  have 1: "relative_transforms [] (float2 (mk2 23 3 zero2)) = Inl RuntimeError"
    using T[where J="float2 (mk2 23 3 zero2)" and results="[]", THEN conjunct1] by simp
  have 2: "\<not> isl (relative_transforms (replicate 24 (float2 (mk2 4 4 zero2))) (float2 (mk2 24 3 zero2)))"
    using T[where J="float2 (mk2 24 3 zero2)" and results="replicate 24 (float2 (mk2 4 4 zero2))",
        THEN conjunct2, THEN conjunct1] a by auto
  have 3: "isl (forward (SMPL_init ex_params23) ex_beta ex_pose23 ex_trans False tiny_noise)"
    using T[where self="SMPL_init ex_params23" and beta=ex_beta and pose=ex_pose23 and trns=ex_trans
        and simplify=False and noise=tiny_noise, THEN conjunct2, THEN conjunct2, THEN conjunct1]
    by auto
  have 4: "forward (SMPL_init ex_params23) ex_beta ex_pose23 ex_trans False tiny_noise = Inl RuntimeError"
    using T[where self="SMPL_init ex_params23" and beta=ex_beta and pose=ex_pose23 and trns=ex_trans
        and simplify=False and noise=tiny_noise and V=2 and K=23,
        THEN conjunct2, THEN conjunct2, THEN conjunct2, THEN conjunct1]
      ex23_shapes_ok[of False] topological_smpl23 by simp
  have 5: "\<not> isl (forward (SMPL_init ex_params) ex_beta ex_pose ex_trans False tiny_noise)"
    using T[where self="SMPL_init ex_params" and beta=ex_beta and pose=ex_pose and trns=ex_trans
        and simplify=False and noise=tiny_noise and V=2,
        THEN conjunct2, THEN conjunct2, THEN conjunct2, THEN conjunct2]
      ex_shapes_ok[of False] topological_smpl t by auto
  from 1 2 3 4 5 show ?thesis by blast
qed

end
